theory Spec2Isabelle
  imports
    Main
    "HOL-Library.AList"
    "HOL-Library.Multiset"
    "HOL-Library.Char_ord"
    "HOL-Library.List_Lexorder"
    "HOL-Library.Product_Lexorder"
begin

section \<open>pgbulk: the bulk upsert and bulk update compiler of \<^verbatim>\<open>src/pgbulk/core.py\<close>\<close>

text \<open>
  The development embeds the functions of \<^verbatim>\<open>core.py\<close> one by one. A leading underscore
  of a Python name is dropped (\<^verbatim>\<open>_get_update_fields\<close> is \<open>get_update_fields\<close>); the two
  internal entry points \<^verbatim>\<open>_upsert\<close> and \<^verbatim>\<open>_update\<close> are \<open>upsert_impl\<close> and \<open>update_impl\<close>.
  Exceptions are values of \<open>error + 'a\<close>; the records the caller hands in, the clock and the
  statements given to the cursor are threaded as explicit state. A batch (\<^verbatim>\<open>model_objs\<close>) is
  a list: the source iterates it more than once. The public \<^verbatim>\<open>upsert\<close> and \<^verbatim>\<open>update\<close>
  only open a cursor and call the internal entry points.
\<close>

subsection \<open>Values, errors, fields and models\<close>

text \<open>
  A Python value held by a record attribute or bound as a statement argument.
  \<open>PExpr s\<close> is an object with \<^verbatim>\<open>resolve_expression\<close>/\<^verbatim>\<open>as_sql\<close> whose compiled and
  mogrified SQL text is \<open>s\<close>; \<open>PLiteral s\<close> is the \<^verbatim>\<open>LiteralValue\<close>/\<^verbatim>\<open>AsIs\<close> wrapper
  that \<^verbatim>\<open>_prep_sql_args\<close> puts around that text; \<open>PTime t\<close> is a timestamp.
\<close>

datatype pyval = PNone | PInt int | PStr string | PTime nat | PExpr string | PLiteral string

datatype error =
    KeyError string
  | ValueError string
  | TypeError
  | AttributeError
  | FieldDoesNotExist string
  | ProgrammingError

text \<open>
  A Django field, with the attributes \<^verbatim>\<open>core.py\<close> reads. \<open>is_auto_field\<close> stands for
  \<^verbatim>\<open>isinstance(field, models.AutoField)\<close>, \<open>db_type\<close> for \<^verbatim>\<open>field.db_type(connection)\<close>
  and \<open>get_db_prep_save\<close> for \<^verbatim>\<open>field.get_db_prep_save(value, connection)\<close>, the
  conversion of a value to its storage literal.
\<close>

record model_field =
  name :: string
  attname :: string
  column :: string
  db_type :: string
  primary_key :: bool
  generated :: bool
  concrete :: bool
  auto_now :: bool
  auto_now_add :: bool
  is_auto_field :: bool
  get_db_prep_save :: "pyval \<Rightarrow> pyval"

text \<open>\<^verbatim>\<open>model._meta\<close>: the table name, all fields, and the primary key if there is one.\<close>

record model =
  db_table :: string
  meta_fields :: "model_field list"
  meta_pk :: "model_field option"

text \<open>A model instance: its attributes by name (\<^verbatim>\<open>getattr(obj, a)\<close> is \<open>obj a\<close>).\<close>

type_synonym model_obj = "string \<Rightarrow> pyval"

text \<open>
  \<^verbatim>\<open>UpdateField\<close> is a \<^verbatim>\<open>str\<close> subclass that carries an optional expression; a plain
  \<^verbatim>\<open>str\<close> in an update-field list is \<open>UpdateField n None\<close>. The expression is kept as the
  SQL text that \<^verbatim>\<open>cursor.mogrify(*expr.as_sql(...))\<close> returns for it.
\<close>

datatype update_field = UpdateField (uf_name: string) (expression: "string option")

text \<open>The \<^verbatim>\<open>returning\<close> argument: \<^verbatim>\<open>Union[List[str], bool]\<close>, and its truth value.\<close>

datatype returning = RBool bool | RList "string list"

fun truthy :: "returning \<Rightarrow> bool" where
  "truthy (RBool b) = b"
| "truthy (RList cs) = (cs \<noteq> [])"

subsection \<open>Strings\<close>

text \<open>\<^verbatim>\<open>sep.join(parts)\<close>.\<close>

fun join :: "string \<Rightarrow> string list \<Rightarrow> string" where
  "join sep [] = []"
| "join sep [p] = p"
| "join sep (p # q # ps) = p @ sep @ join sep (q # ps)"

text \<open>
  \<^verbatim>\<open>_quote\<close>: the driver's identifier quoting (\<^verbatim>\<open>quote_ident\<close>,
  \<^verbatim>\<open>Escaping.escape_identifier\<close>): double quotes around the name, each double quote
  inside it doubled.
\<close>

definition quote :: "string \<Rightarrow> string" where
  "quote s = [CHR 0x22] @ concat (map (\<lambda>c. if c = CHR 0x22 then [c, c] else [c]) s) @ [CHR 0x22]"

subsection \<open>Field lookup\<close>

text \<open>\<^verbatim>\<open>_model_fields\<close>: the fields of a model, excluding generated and non-concrete ones.\<close>

definition model_fields :: "model \<Rightarrow> model_field list" where
  "model_fields m = filter (\<lambda>f. \<not> generated f \<and> concrete f) (meta_fields m)"

text \<open>
  The dictionary \<^verbatim>\<open>{**{f.attname: f ...}, **{f.name: f ...}}\<close>: an entry by name overrides
  an entry by attname, and within each a later field overrides an earlier one.
\<close>

definition fields_dict :: "model_field list \<Rightarrow> string \<Rightarrow> model_field option" where
  "fields_dict fs =
     map_of (rev (map (\<lambda>f. (name f, f)) fs) @ rev (map (\<lambda>f. (attname f, f)) fs))"

text \<open>
  \<^verbatim>\<open>model._meta.get_field(n)\<close> is Django's: it finds a field of the model by name or by
  attname, among all fields, and raises \<^verbatim>\<open>FieldDoesNotExist\<close> otherwise.
\<close>

definition get_field :: "model \<Rightarrow> string \<Rightarrow> error + model_field" where
  "get_field m n =
     (case fields_dict (meta_fields m) n of
        None \<Rightarrow> Inl (FieldDoesNotExist n)
      | Some f \<Rightarrow> Inr f)"

text \<open>A list comprehension whose element expression may raise: the first raise wins.\<close>

fun map_err :: "('a \<Rightarrow> error + 'b) \<Rightarrow> 'a list \<Rightarrow> error + 'b list" where
  "map_err g [] = Inr []"
| "map_err g (x # xs) =
     (case g x of
        Inl e \<Rightarrow> Inl e
      | Inr y \<Rightarrow> (case map_err g xs of Inl e \<Rightarrow> Inl e | Inr ys \<Rightarrow> Inr (y # ys)))"

subsection \<open>Field selector: \<^verbatim>\<open>_get_update_fields\<close>\<close>

text \<open>
  The filtering comprehension of \<^verbatim>\<open>_get_update_fields\<close>. The condition is evaluated left
  to right: a name in \<open>exclude\<close> is dropped before \<^verbatim>\<open>fields[attname]\<close> is looked up, and a
  name that is looked up and missing raises \<^verbatim>\<open>KeyError\<close>.
\<close>

fun keep_update_fields ::
  "(string \<Rightarrow> model_field option) \<Rightarrow> string list \<Rightarrow> update_field list \<Rightarrow> error + update_field list"
where
  "keep_update_fields fdict exclude [] = Inr []"
| "keep_update_fields fdict exclude (a # as) =
     (if uf_name a \<in> set exclude then keep_update_fields fdict exclude as
      else (case fdict (uf_name a) of
              None \<Rightarrow> Inl (KeyError (uf_name a))
            | Some f \<Rightarrow>
                if auto_now_add f then keep_update_fields fdict exclude as
                else if primary_key f then keep_update_fields fdict exclude as
                else (case keep_update_fields fdict exclude as of
                        Inl e \<Rightarrow> Inl e
                      | Inr r \<Rightarrow> Inr (a # r))))"

definition get_update_fields ::
  "model \<Rightarrow> update_field list option \<Rightarrow> string list option \<Rightarrow> error + update_field list"
where
  "get_update_fields m to_update exclude =
     (let exclude = (case exclude of None \<Rightarrow> [] | Some ex \<Rightarrow> ex);
          fdict = fields_dict (model_fields m);
          to_update = (case to_update of
                         None \<Rightarrow> map (\<lambda>f. UpdateField (attname f) None) (model_fields m)
                       | Some us \<Rightarrow> us)
      in keep_update_fields fdict exclude to_update)"

text \<open>
  The update fields of an upsert, as \<^verbatim>\<open>_upsert\<close> computes them: the unique fields are
  appended to the caller's exclusions.
\<close>

definition upsert_update_fields ::
  "model \<Rightarrow> string list \<Rightarrow> update_field list option \<Rightarrow> string list option
     \<Rightarrow> error + update_field list"
where
  "upsert_update_fields m unique_fields update_fields exclude =
     get_update_fields m update_fields
       (Some ((case exclude of None \<Rightarrow> [] | Some ex \<Rightarrow> ex) @ unique_fields))"

subsection \<open>Auto timestamps: \<^verbatim>\<open>_fill_auto_fields\<close>\<close>

text \<open>
  The state outside the records: the clock, which \<^verbatim>\<open>timezone.now()\<close> reads, and the
  statements handed to \<^verbatim>\<open>cursor.execute\<close>, in order. A read of the clock returns the
  current instant and the clock moves on, so two reads give two different timestamps.
\<close>

record world =
  clock :: nat
  executed :: "(string \<times> pyval list) list"

definition timezone_now :: "world \<Rightarrow> pyval \<times> world" where
  "timezone_now w = (PTime (clock w), w\<lparr>clock := Suc (clock w)\<rparr>)"

definition auto_field_names :: "model \<Rightarrow> string list" where
  "auto_field_names m =
     map attname (filter (\<lambda>f. auto_now f \<or> auto_now_add f) (model_fields m))"

text \<open>\<^verbatim>\<open>for f in auto_field_names: setattr(value, f, now)\<close>.\<close>

definition set_auto_fields :: "string list \<Rightarrow> pyval \<Rightarrow> model_obj \<Rightarrow> model_obj" where
  "set_auto_fields names now v = fold (\<lambda>f obj. obj(f := now)) names v"

text \<open>
  \<^verbatim>\<open>_fill_auto_fields\<close> mutates the caller's records in place: the records after the call
  are returned, in the caller's order, with the world.
\<close>

definition fill_auto_fields :: "model \<Rightarrow> model_obj list \<Rightarrow> world \<Rightarrow> model_obj list \<times> world" where
  "fill_auto_fields m vals w =
     (let names = auto_field_names m;
          (now, w') = timezone_now w
      in (map (set_auto_fields names now) vals, w'))"

subsection \<open>Storage literals and argument preparation\<close>

text \<open>\<^verbatim>\<open>_get_field_db_val\<close>: an expression is resolved, any other value is converted.\<close>

fun get_field_db_val :: "model_field \<Rightarrow> pyval \<Rightarrow> pyval" where
  "get_field_db_val f (PExpr s) = PExpr s"
| "get_field_db_val f v = get_db_prep_save f v"

text \<open>\<^verbatim>\<open>_prep_sql_args\<close>: an argument with \<^verbatim>\<open>as_sql\<close> becomes a literal, one for one.\<close>

fun prep_sql_arg :: "pyval \<Rightarrow> pyval" where
  "prep_sql_arg (PExpr s) = PLiteral s"
| "prep_sql_arg v = v"

definition prep_sql_args :: "pyval list \<Rightarrow> pyval list" where
  "prep_sql_args sql_args = map prep_sql_arg sql_args"

subsection \<open>Row sequencer: \<^verbatim>\<open>sorted\<close> and \<^verbatim>\<open>_sort_by_unique_fields\<close>\<close>

text \<open>
  Python's \<^verbatim>\<open><\<close> on two values: numbers, strings (by code point) and timestamps compare
  with their own kind; every other pair, \<^verbatim>\<open>None < None\<close> included, raises
  \<^verbatim>\<open>TypeError\<close>.
\<close>

fun py_lt :: "pyval \<Rightarrow> pyval \<Rightarrow> error + bool" where
  "py_lt (PInt a) (PInt b) = Inr (a < b)"
| "py_lt (PStr a) (PStr b) = Inr (a < b)"
| "py_lt (PTime a) (PTime b) = Inr (a < b)"
| "py_lt _ _ = Inl TypeError"

text \<open>
  \<^verbatim>\<open><\<close> on two tuples: the first position where the items are not equal decides, by
  \<^verbatim>\<open><\<close> on the two items; if there is none, the shorter tuple is the smaller.
\<close>

fun tuple_lt :: "pyval list \<Rightarrow> pyval list \<Rightarrow> error + bool" where
  "tuple_lt [] [] = Inr False"
| "tuple_lt [] (y # ys) = Inr True"
| "tuple_lt (x # xs) [] = Inr False"
| "tuple_lt (x # xs) (y # ys) = (if x = y then tuple_lt xs ys else py_lt x y)"

text \<open>
  \<^verbatim>\<open>sorted(xs, key=key)\<close>, as a stable insertion sort in which every comparison may raise.
  CPython's list sort makes other comparisons in another order; it returns the same list
  whenever all keys compare, makes no comparison on a list shorter than two, and on a
  list of two makes the one comparison made here.
\<close>

fun insort_py :: "('k \<Rightarrow> 'k \<Rightarrow> error + bool) \<Rightarrow> ('a \<Rightarrow> 'k) \<Rightarrow> 'a \<Rightarrow> 'a list \<Rightarrow> error + 'a list" where
  "insort_py lt key x [] = Inr [x]"
| "insort_py lt key x (y # ys) =
     (case lt (key y) (key x) of
        Inl e \<Rightarrow> Inl e
      | Inr b \<Rightarrow>
          if b then (case insort_py lt key x ys of Inl e \<Rightarrow> Inl e | Inr zs \<Rightarrow> Inr (y # zs))
          else Inr (x # y # ys))"

fun sorted_py :: "('k \<Rightarrow> 'k \<Rightarrow> error + bool) \<Rightarrow> ('a \<Rightarrow> 'k) \<Rightarrow> 'a list \<Rightarrow> error + 'a list" where
  "sorted_py lt key [] = Inr []"
| "sorted_py lt key (x # xs) =
     (case sorted_py lt key xs of Inl e \<Rightarrow> Inl e | Inr ys \<Rightarrow> insort_py lt key x ys)"

definition unique_db_fields :: "model \<Rightarrow> string list \<Rightarrow> model_field list" where
  "unique_db_fields m unique_fields =
     filter (\<lambda>f. attname f \<in> set unique_fields) (model_fields m)"

text \<open>
  The nested function \<^verbatim>\<open>sort_key\<close> of \<^verbatim>\<open>_sort_by_unique_fields\<close> (the list library has a
  \<open>sort_key\<close> of its own).
\<close>

definition sort_key_tuple :: "model \<Rightarrow> string list \<Rightarrow> model_obj \<Rightarrow> pyval list" where
  "sort_key_tuple m unique_fields model_obj =
     map (\<lambda>f. get_field_db_val f (model_obj (attname f))) (unique_db_fields m unique_fields)"

definition sort_by_unique_fields ::
  "model \<Rightarrow> model_obj list \<Rightarrow> string list \<Rightarrow> error + model_obj list"
where
  "sort_by_unique_fields m model_objs unique_fields =
     sorted_py tuple_lt (sort_key_tuple m unique_fields) model_objs"

text \<open>
  Modelled on the claim's words, to be compared with \<open>unique_db_fields\<close> and
  \<open>sort_key_tuple\<close> of the source: the key columns are the model's fields that the unique
  fields list, whether by name or by attname (a field answers to both, as the \<^verbatim>\<open>fields\<close>
  dictionary of \<^verbatim>\<open>_get_update_fields\<close> has it), in the model's field order.
\<close>

definition key_fields :: "model \<Rightarrow> string list \<Rightarrow> model_field list" where
  "key_fields m unique_fields =
     filter (\<lambda>f. attname f \<in> set unique_fields \<or> name f \<in> set unique_fields) (model_fields m)"


text \<open>No unique field is listed by a name of its field other than the field's attname.\<close>

definition listed_by_attname :: "model \<Rightarrow> string list \<Rightarrow> bool" where
  "listed_by_attname m unique_fields =
     list_all (\<lambda>f. attname f \<in> set unique_fields \<or> name f \<notin> set unique_fields) (model_fields m)"

text \<open>
  \<^verbatim>\<open>sorted(model_objs, key=lambda obj: obj.pk)\<close> in \<^verbatim>\<open>_update\<close>. \<^verbatim>\<open>obj.pk\<close> is Django's
  property: the attribute named by the primary key's attname; on a model without primary
  key it fails on the first record (\<^verbatim>\<open>AttributeError\<close>).
\<close>

definition sort_by_pk :: "model \<Rightarrow> model_obj list \<Rightarrow> error + model_obj list" where
  "sort_by_pk m model_objs =
     (case meta_pk m of
        None \<Rightarrow> (if model_objs = [] then Inr [] else Inl AttributeError)
      | Some pk \<Rightarrow> sorted_py py_lt (\<lambda>obj. obj (attname pk)) model_objs)"

subsection \<open>Row value extractor: \<^verbatim>\<open>_get_values_for_rows\<close>\<close>

definition get_values_for_row :: "model_obj \<Rightarrow> model_field list \<Rightarrow> pyval list" where
  "get_values_for_row model_obj all_fields =
     map (\<lambda>f. get_field_db_val f (model_obj (attname f))) all_fields"

text \<open>The placeholders of the group of row \<open>i\<close>, before they are joined.\<close>

definition upsert_placeholders :: "model_field list \<Rightarrow> nat \<Rightarrow> string list" where
  "upsert_placeholders all_fields i =
     (if i = 0 then map (\<lambda>f. ''%s::'' @ db_type f) all_fields
      else replicate (length all_fields) ''%s'')"

definition paren :: "string \<Rightarrow> string" where
  "paren s = ''('' @ s @ '')''"

definition get_values_for_rows :: "model_obj list \<Rightarrow> model_field list \<Rightarrow> string list \<times> pyval list" where
  "get_values_for_rows model_objs all_fields =
     (map (\<lambda>i. paren (join '', '' (upsert_placeholders all_fields i))) [0..<length model_objs],
      concat (map (\<lambda>obj. get_values_for_row obj all_fields) model_objs))"

subsection \<open>\<^verbatim>\<open>_get_returning_sql\<close>\<close>

text \<open>The columns a \<^verbatim>\<open>returning\<close> argument asks for.\<close>

fun returning_columns :: "model \<Rightarrow> returning \<Rightarrow> string list" where
  "returning_columns m (RBool True) = map column (model_fields m)"
| "returning_columns m (RBool False) = []"
| "returning_columns m (RList cs) = cs"

definition status_sql :: string where
  "status_sql = '', CASE WHEN xmax = 0 THEN '' @ [CHR 0x27] @ ''c'' @ [CHR 0x27]
                @ '' ELSE '' @ [CHR 0x27] @ ''u'' @ [CHR 0x27] @ '' END AS status_''"

definition get_returning_sql :: "returning \<Rightarrow> model \<Rightarrow> bool \<Rightarrow> string" where
  "get_returning_sql returning m include_status =
     (let cols = returning_columns m returning
      in if cols = [] then []
         else ''RETURNING '' @ join '', '' (map (\<lambda>c. quote (db_table m) @ ''.'' @ quote c) cols)
              @ (if include_status then status_sql else []))"

subsection \<open>SET and WHERE clauses: \<^verbatim>\<open>_get_update_fields_sql\<close>\<close>

definition field_column :: "model \<Rightarrow> string \<Rightarrow> error + string" where
  "field_column m n = (case get_field m n of Inl e \<Rightarrow> Inl e | Inr f \<Rightarrow> Inr (column f))"

text \<open>
  A Python dictionary keeps its keys in insertion order and a later store to a key
  replaces the value in place: \<open>AList.update\<close>.
\<close>

definition update_expressions :: "update_field list \<Rightarrow> (string \<times> string) list" where
  "update_expressions flds =
     fold (\<lambda>u d. case expression u of None \<Rightarrow> d | Some e \<Rightarrow> AList.update (uf_name u) e d)
       flds []"

definition alias_expressions :: "string \<Rightarrow> string list \<Rightarrow> (string \<times> string) list" where
  "alias_expressions alias cols =
     fold (\<lambda>col d. AList.update col (alias @ ''.'' @ quote col) d) cols []"

text \<open>The loop over \<^verbatim>\<open>update_expressions.items()\<close>.\<close>

fun store_expressions ::
  "model \<Rightarrow> (string \<times> string) list \<Rightarrow> (string \<times> string) list \<Rightarrow> error + (string \<times> string) list"
where
  "store_expressions m [] d = Inr d"
| "store_expressions m ((field_name, val) # rest) d =
     (case field_column m field_name of
        Inl e \<Rightarrow> Inl e
      | Inr c \<Rightarrow> store_expressions m rest (AList.update c val d))"

definition dict_get :: "(string \<times> string) list \<Rightarrow> string \<Rightarrow> error + string" where
  "dict_get d k = (case map_of d k of None \<Rightarrow> Inl (KeyError k) | Some v \<Rightarrow> Inr v)"

text \<open>One item of the SET list: \<^verbatim>\<open>f"{_quote(col, cursor)} = {update_fields_expressions[col]}"\<close>.\<close>

definition set_item :: "(string \<times> string) list \<Rightarrow> string \<Rightarrow> error + string" where
  "set_item d col =
     (case dict_get d col of Inl e \<Rightarrow> Inl e | Inr v \<Rightarrow> Inr (quote col @ '' = '' @ v))"

definition ignore_unchanged_sql_of :: "model \<Rightarrow> string list \<Rightarrow> (string \<times> string) list \<Rightarrow> string" where
  "ignore_unchanged_sql_of m cols d =
     ''(('' @ join '', '' (map (\<lambda>col. quote (db_table m) @ ''.'' @ quote col) cols)
     @ '') IS DISTINCT FROM ('' @ join '', '' (map snd d) @ ''))''"

definition get_update_fields_sql ::
  "model \<Rightarrow> update_field list \<Rightarrow> string \<Rightarrow> bool \<Rightarrow> error + string \<times> string"
where
  "get_update_fields_sql m flds alias ignore_unchanged =
     (case map_err (field_column m) (map uf_name flds) of
        Inl e \<Rightarrow> Inl e
      | Inr cols \<Rightarrow>
          (case store_expressions m (update_expressions flds) (alias_expressions alias cols) of
             Inl e \<Rightarrow> Inl e
           | Inr update_fields_expressions \<Rightarrow>
               (case map_err (set_item update_fields_expressions) cols of
                  Inl e \<Rightarrow> Inl e
                | Inr items \<Rightarrow>
                    Inr (join '', '' items,
                         if ignore_unchanged \<and> cols \<noteq> []
                         then ignore_unchanged_sql_of m cols update_fields_expressions
                         else []))))"

subsection \<open>Statement compiler (upsert): \<^verbatim>\<open>_get_upsert_sql\<close>\<close>

definition upsert_all_fields :: "model \<Rightarrow> string list \<Rightarrow> model_field list" where
  "upsert_all_fields m unique_fields =
     filter (\<lambda>f. column f \<in> set unique_fields \<or> \<not> is_auto_field f) (model_fields m)"

text \<open>
  The conflict arm: \<^verbatim>\<open>update_db_cols\<close>, the call of \<^verbatim>\<open>_get_update_fields_sql\<close> with the
  alias \<^verbatim>\<open>EXCLUDED\<close>, and \<^verbatim>\<open>on_conflict\<close>.
\<close>

definition get_upsert_on_conflict :: "model \<Rightarrow> update_field list \<Rightarrow> bool \<Rightarrow> error + string" where
  "get_upsert_on_conflict m update_fields ignore_unchanged =
     (case map_err (field_column m) (map uf_name update_fields) of
        Inl e \<Rightarrow> Inl e
      | Inr update_db_cols \<Rightarrow>
          (case get_update_fields_sql m update_fields ''EXCLUDED'' ignore_unchanged of
             Inl e \<Rightarrow> Inl e
           | Inr (update_fields_sql, ignore_unchanged_sql) \<Rightarrow>
               Inr (if update_db_cols \<noteq> []
                    then ''DO UPDATE SET '' @ update_fields_sql @ '' ''
                         @ (if ignore_unchanged_sql \<noteq> [] then ''WHERE '' @ ignore_unchanged_sql
                            else [])
                    else ''DO NOTHING'')))"

definition get_upsert_sql ::
  "model \<Rightarrow> model_obj list \<Rightarrow> string list \<Rightarrow> update_field list \<Rightarrow> returning \<Rightarrow> bool
     \<Rightarrow> error + string \<times> pyval list"
where
  "get_upsert_sql m model_objs unique_fields update_fields returning ignore_unchanged =
     (let all_fields = upsert_all_fields m unique_fields;
          all_field_names_sql = join '', '' (map (\<lambda>f. quote (column f)) all_fields)
      in case map_err (field_column m) unique_fields of
           Inl e \<Rightarrow> Inl e
         | Inr unique_db_cols \<Rightarrow>
             (case get_upsert_on_conflict m update_fields ignore_unchanged of
                Inl e \<Rightarrow> Inl e
              | Inr on_conflict \<Rightarrow>
                  (let (row_values, sql_args) = get_values_for_rows model_objs all_fields;
                       unique_field_names_sql = join '', '' (map quote unique_db_cols);
                       return_sql = get_returning_sql returning m True
                   in Inr ('' INSERT INTO '' @ db_table m @ '' ('' @ all_field_names_sql @ '')''
                           @ '' VALUES '' @ join '', '' row_values
                           @ '' ON CONFLICT ('' @ unique_field_names_sql @ '') '' @ on_conflict
                           @ '' '' @ return_sql,
                           sql_args))))"

subsection \<open>Execution and result rows\<close>

text \<open>
  The execution layer is outside the engine. A statement is answered either by an error or
  by the rows it inserted or updated, each with the values stored in its columns and its
  system column \<^verbatim>\<open>xmax\<close>. What the cursor then describes and fetches is the RETURNING clause
  of the statement evaluated on each of those rows. The clause is the text that
  \<^verbatim>\<open>_get_returning_sql\<close> wrote, which both compilers put at the end of the statement, and it
  is read back from that text: its select list is split into items, an item that is a
  qualified quoted identifier yields the stored value of that column under the column's
  name, and the item \<^verbatim>\<open>CASE WHEN xmax = 0 THEN 'c' ELSE 'u' END AS status_\<close> yields the
  column \<^verbatim>\<open>status_\<close>. \<^verbatim>\<open>cursor.description\<close> is set exactly when there is such a clause.
\<close>

record db_row =
  stored :: "string \<Rightarrow> pyval"
  xmax :: nat

type_synonym backend = "string \<Rightarrow> pyval list \<Rightarrow> error + db_row list"

text \<open>
  The select list is split at each \<^verbatim>\<open>", "\<close> that stands outside a quoted identifier; \<open>cur\<close>
  is the item read so far and \<open>q\<close> tells whether the reader is inside double quotes.
\<close>

fun split_select :: "string \<Rightarrow> bool \<Rightarrow> string \<Rightarrow> string list" where
  "split_select cur q [] = [cur]"
| "split_select cur q (c # cs) =
     (if c = CHR 0x22 then split_select (cur @ [c]) (\<not> q) cs
      else if \<not> q \<and> c = CHR '','' \<and> cs \<noteq> [] \<and> hd cs = CHR '' ''
           then cur # split_select [] False (tl cs)
      else split_select (cur @ [c]) q cs)"

text \<open>
  A quoted identifier, read after its opening quote: the name, with each doubled quote
  undone, and the text after the closing quote.
\<close>

fun read_quoted :: "string \<Rightarrow> string \<Rightarrow> (string \<times> string) option" where
  "read_quoted acc [] = None"
| "read_quoted acc [c] = (if c = CHR 0x22 then Some (acc, []) else None)"
| "read_quoted acc (c # d # cs) =
     (if c = CHR 0x22
      then (if d = CHR 0x22 then read_quoted (acc @ [c]) cs else Some (acc, d # cs))
      else read_quoted (acc @ [c]) (d # cs))"

fun read_ident :: "string \<Rightarrow> (string \<times> string) option" where
  "read_ident [] = None"
| "read_ident (c # cs) = (if c = CHR 0x22 then read_quoted [] cs else None)"

datatype select_item = Column string | StatusCase

definition status_item :: string where
  "status_item = ''CASE WHEN xmax = 0 THEN '' @ [CHR 0x27] @ ''c'' @ [CHR 0x27]
                 @ '' ELSE '' @ [CHR 0x27] @ ''u'' @ [CHR 0x27] @ '' END AS status_''"

text \<open>An item is the status expression or \<^verbatim>\<open>"table"."column"\<close>.\<close>

definition parse_item :: "string \<Rightarrow> select_item option" where
  "parse_item item =
     (if item = status_item then Some StatusCase
      else (case read_ident item of
              None \<Rightarrow> None
            | Some (t, rest) \<Rightarrow>
                (case rest of
                   [] \<Rightarrow> None
                 | c # rest' \<Rightarrow>
                     if c = CHR ''.''
                     then (case read_ident rest' of
                             None \<Rightarrow> None
                           | Some (col, tail) \<Rightarrow> if tail = [] then Some (Column col) else None)
                     else None)))"

definition parse_returning :: "string \<Rightarrow> select_item list option" where
  "parse_returning clause =
     (if take 10 clause = ''RETURNING ''
      then those (map parse_item (split_select [] False (drop 10 clause)))
      else None)"

text \<open>\<^verbatim>\<open>CASE WHEN xmax = 0 THEN 'c' ELSE 'u' END\<close>, evaluated on a row.\<close>

definition eval_status :: "nat \<Rightarrow> string" where
  "eval_status x = (if x = 0 then ''c'' else ''u'')"

fun item_name :: "select_item \<Rightarrow> string" where
  "item_name (Column c) = c"
| "item_name StatusCase = ''status_''"

fun item_value :: "select_item \<Rightarrow> db_row \<Rightarrow> pyval" where
  "item_value (Column c) r = stored r c"
| "item_value StatusCase r = PStr (eval_status (xmax r))"

text \<open>
  \<^verbatim>\<open>NamedTuple("Result", result)\<close> is \<^verbatim>\<open>collections.namedtuple\<close>: every field name must be
  an identifier and no keyword, then no name may start with an underscore or occur twice;
  the first offence raises \<^verbatim>\<open>ValueError\<close> (its message is given without the quotes around
  the name). Identifiers are read bytewise: a byte beyond ASCII counts as a letter.
\<close>

definition identifier_start :: "char \<Rightarrow> bool" where
  "identifier_start c =
     (c = CHR ''_'' \<or> (CHR ''a'' \<le> c \<and> c \<le> CHR ''z'') \<or> (CHR ''A'' \<le> c \<and> c \<le> CHR ''Z'')
      \<or> CHR 0x80 \<le> c)"

definition identifier_char :: "char \<Rightarrow> bool" where
  "identifier_char c = (identifier_start c \<or> (CHR ''0'' \<le> c \<and> c \<le> CHR ''9''))"

fun isidentifier :: "string \<Rightarrow> bool" where
  "isidentifier [] = False"
| "isidentifier (c # cs) = (identifier_start c \<and> list_all identifier_char cs)"

definition python_keywords :: "string list" where
  "python_keywords =
     [''False'', ''None'', ''True'', ''and'', ''as'', ''assert'', ''async'', ''await'', ''break'',
      ''class'', ''continue'', ''def'', ''del'', ''elif'', ''else'', ''except'', ''finally'', ''for'',
      ''from'', ''global'', ''if'', ''import'', ''in'', ''is'', ''lambda'', ''nonlocal'', ''not'',
      ''or'', ''pass'', ''raise'', ''return'', ''try'', ''while'', ''with'', ''yield'']"

fun check_identifiers :: "string list \<Rightarrow> error + unit" where
  "check_identifiers [] = Inr ()"
| "check_identifiers (n # ns) =
     (if \<not> isidentifier n
      then Inl (ValueError (''Type names and field names must be valid identifiers: '' @ n))
      else if n \<in> set python_keywords
      then Inl (ValueError (''Type names and field names cannot be a keyword: '' @ n))
      else check_identifiers ns)"

fun check_fields :: "string list \<Rightarrow> string list \<Rightarrow> error + unit" where
  "check_fields seen [] = Inr ()"
| "check_fields seen (n # ns) =
     (if take 1 n = ''_''
      then Inl (ValueError (''Field names cannot start with an underscore: '' @ n))
      else if n \<in> set seen
      then Inl (ValueError (''Encountered duplicate field name: '' @ n))
      else check_fields (n # seen) ns)"

definition namedtuple :: "string list \<Rightarrow> error + unit" where
  "namedtuple names =
     (case check_identifiers names of Inl e \<Rightarrow> Inl e | Inr u \<Rightarrow> check_fields [] names)"

text \<open>A row of the result: a named tuple, its fields in the order of the select list.\<close>

type_synonym row = "(string \<times> pyval) list"

text \<open>
  \<^verbatim>\<open>if cursor.description: ... [nt_result(*row) for row in cursor.fetchall()]\<close>, for the
  clause of the statement and the rows it touched. A clause that cannot be read is the
  database's error.
\<close>

definition fetch_rows :: "string \<Rightarrow> db_row list \<Rightarrow> error + row list" where
  "fetch_rows clause rows =
     (if clause = [] then Inr []
      else (case parse_returning clause of
              None \<Rightarrow> Inl ProgrammingError
            | Some items \<Rightarrow>
                (case namedtuple (map item_name items) of
                   Inl e \<Rightarrow> Inl e
                 | Inr u \<Rightarrow>
                     Inr (map (\<lambda>r. map (\<lambda>it. (item_name it, item_value it r)) items) rows))))"

text \<open>\<^verbatim>\<open>i.status_\<close>: the field of that name, or \<^verbatim>\<open>AttributeError\<close>.\<close>

definition getattr_row :: "row \<Rightarrow> string \<Rightarrow> error + pyval" where
  "getattr_row i a = (case map_of i a of None \<Rightarrow> Inl AttributeError | Some v \<Rightarrow> Inr v)"

text \<open>\<^verbatim>\<open>[i for i in self if i.status_ == tag]\<close>.\<close>

fun rows_with_status :: "string \<Rightarrow> row list \<Rightarrow> error + row list" where
  "rows_with_status tag [] = Inr []"
| "rows_with_status tag (i # rest) =
     (case getattr_row i ''status_'' of
        Inl e \<Rightarrow> Inl e
      | Inr v \<Rightarrow>
          (case rows_with_status tag rest of
             Inl e \<Rightarrow> Inl e
           | Inr r \<Rightarrow> Inr (if v = PStr tag then i # r else r)))"

text \<open>\<^verbatim>\<open>UpsertResult.created\<close> and \<^verbatim>\<open>UpsertResult.updated\<close>.\<close>

definition created :: "row list \<Rightarrow> error + row list" where
  "created rs = rows_with_status ''c'' rs"

definition updated :: "row list \<Rightarrow> error + row list" where
  "updated rs = rows_with_status ''u'' rs"

subsection \<open>\<^verbatim>\<open>_upsert\<close>\<close>

text \<open>
  The result is the caller's records after the call, the world after the call, and the
  value returned or the exception raised. \<open>Inr None\<close> is Python's \<^verbatim>\<open>None\<close>.
\<close>

definition upsert_impl ::
  "backend \<Rightarrow> model \<Rightarrow> model_obj list \<Rightarrow> string list \<Rightarrow> update_field list option
     \<Rightarrow> string list option \<Rightarrow> returning \<Rightarrow> bool \<Rightarrow> world
     \<Rightarrow> model_obj list \<times> world \<times> (error + row list option)"
where
  "upsert_impl db m model_objs unique_fields update_fields exclude returning ignore_unchanged w =
     (let (objs, w1) = fill_auto_fields m model_objs w
      in case sort_by_unique_fields m objs unique_fields of
           Inl e \<Rightarrow> (objs, w1, Inl e)
         | Inr sorted_objs \<Rightarrow>
             (case upsert_update_fields m unique_fields update_fields exclude of
                Inl e \<Rightarrow> (objs, w1, Inl e)
              | Inr ufs \<Rightarrow>
                  if sorted_objs \<noteq> [] then
                    (case get_upsert_sql m sorted_objs unique_fields ufs returning ignore_unchanged of
                       Inl e \<Rightarrow> (objs, w1, Inl e)
                     | Inr (sql, sql_args) \<Rightarrow>
                         (let args = prep_sql_args sql_args;
                              w2 = w1\<lparr>executed := executed w1 @ [(sql, args)]\<rparr>
                          in case db sql args of
                               Inl e \<Rightarrow> (objs, w2, Inl e)
                             | Inr rows \<Rightarrow>
                                 (case fetch_rows (get_returning_sql returning m True) rows of
                                    Inl e \<Rightarrow> (objs, w2, Inl e)
                                  | Inr upserted \<Rightarrow>
                                      (objs, w2,
                                       Inr (if truthy returning then Some upserted else None)))))
                  else (objs, w1, Inr (if truthy returning then Some [] else None))))"

subsection \<open>\<^verbatim>\<open>_update\<close>\<close>

definition value_of_field :: "model \<Rightarrow> model_obj \<Rightarrow> string \<Rightarrow> error + pyval" where
  "value_of_field m model_obj n =
     (case get_field m n of
        Inl e \<Rightarrow> Inl e
      | Inr f \<Rightarrow> Inr (get_field_db_val f (model_obj (attname f))))"

definition field_db_type :: "model \<Rightarrow> string \<Rightarrow> error + string" where
  "field_db_type m n = (case get_field m n of Inl e \<Rightarrow> Inl e | Inr f \<Rightarrow> Inr (db_type f))"

text \<open>
  The placeholders of one group of \<^verbatim>\<open>values_sql\<close>:
  \<^verbatim>\<open>"%s::{0}".format(db_types[i]) if not row_number and i else "%s"\<close>. Every row has one
  value per value field, as \<open>db_types\<close> has, so \<open>db_types ! i\<close> is in range.
\<close>

definition update_placeholders :: "string list \<Rightarrow> nat \<Rightarrow> pyval list \<Rightarrow> string list" where
  "update_placeholders db_types row_number row =
     map (\<lambda>i. if row_number = 0 \<and> i \<noteq> 0 then ''%s::'' @ db_types ! i else ''%s'')
       [0..<length row]"

definition update_values_sql :: "string list \<Rightarrow> pyval list list \<Rightarrow> string" where
  "update_values_sql db_types row_values =
     join '', ''
       (map (\<lambda>(row_number, row). paren (join '', '' (update_placeholders db_types row_number row)))
          (enumerate 0 row_values))"

text \<open>
  \<^verbatim>\<open>_update\<close> from \<^verbatim>\<open>value_fields\<close> to \<^verbatim>\<open>update_sql_params\<close>: the statement and its
  parameters, or \<open>None\<close> for the early \<^verbatim>\<open>return None\<close>. The first assignment to
  \<^verbatim>\<open>update_fields_sql\<close> in the source is overwritten before it is read and has no
  counterpart here.
\<close>

text \<open>\<^verbatim>\<open>value_fields = [model._meta.pk.attname] + update_fields\<close>.\<close>

definition value_fields :: "model_field \<Rightarrow> update_field list \<Rightarrow> string list" where
  "value_fields pk update_fields = attname pk # map uf_name update_fields"

definition get_update_sql ::
  "model \<Rightarrow> model_field \<Rightarrow> model_obj list \<Rightarrow> update_field list \<Rightarrow> returning \<Rightarrow> bool
     \<Rightarrow> error + (string \<times> pyval list) option"
where
  "get_update_sql m pk model_objs update_fields returning ignore_unchanged =
     (let alias = ''new_values'';
          value_fields = value_fields pk update_fields
      in case map_err (\<lambda>obj. map_err (value_of_field m obj) value_fields) model_objs of
           Inl e \<Rightarrow> Inl e
         | Inr row_values \<Rightarrow>
             if length row_values = 0 \<or> length update_fields = 0 then Inr None
             else
               (case map_err (field_db_type m) value_fields of
                  Inl e \<Rightarrow> Inl e
                | Inr db_types \<Rightarrow>
                    (case map_err (field_column m) value_fields of
                       Inl e \<Rightarrow> Inl e
                     | Inr value_cols \<Rightarrow>
                         (case get_update_fields_sql m update_fields alias ignore_unchanged of
                            Inl e \<Rightarrow> Inl e
                          | Inr (update_fields_sql, ignore_unchanged_sql) \<Rightarrow>
                              Inr (Some
                                (''UPDATE '' @ quote (db_table m) @ '' ''
                                 @ ''SET '' @ update_fields_sql @ '' ''
                                 @ ''FROM (VALUES '' @ update_values_sql db_types row_values
                                 @ '') AS '' @ alias
                                 @ '' ('' @ join '', '' (map quote value_cols) @ '') ''
                                 @ ''WHERE '' @ quote (db_table m) @ ''.'' @ quote (column pk)
                                 @ '' = new_values.'' @ quote (column pk) @ '' ''
                                 @ (if ignore_unchanged_sql \<noteq> [] then ''AND '' @ ignore_unchanged_sql
                                    else [])
                                 @ '' '' @ get_returning_sql returning m False,
                                 prep_sql_args (concat row_values)))))))"

definition update_impl ::
  "backend \<Rightarrow> model \<Rightarrow> model_obj list \<Rightarrow> update_field list option \<Rightarrow> string list option
     \<Rightarrow> returning \<Rightarrow> bool \<Rightarrow> world
     \<Rightarrow> model_obj list \<times> world \<times> (error + row list option)"
where
  "update_impl db m model_objs update_fields exclude returning ignore_unchanged w =
     (case get_update_fields m update_fields exclude of
        Inl e \<Rightarrow> (model_objs, w, Inl e)
      | Inr ufs \<Rightarrow>
          (case map_err (field_column m) (map uf_name ufs) of
             Inl e \<Rightarrow> (model_objs, w, Inl e)
           | Inr update_db_cols \<Rightarrow>
               (case sort_by_pk m model_objs of
                  Inl e \<Rightarrow> (model_objs, w, Inl e)
                | Inr sorted_objs \<Rightarrow>
                    (case meta_pk m of
                       None \<Rightarrow>
                         (model_objs, w,
                          Inl (ValueError ''Model must have a primary key to perform a bulk update.''))
                     | Some pk \<Rightarrow>
                         (case get_update_sql m pk sorted_objs ufs returning ignore_unchanged of
                            Inl e \<Rightarrow> (model_objs, w, Inl e)
                          | Inr None \<Rightarrow> (model_objs, w, Inr None)
                          | Inr (Some (update_sql, update_sql_params)) \<Rightarrow>
                              (let w1 = w\<lparr>executed := executed w @ [(update_sql, update_sql_params)]\<rparr>
                               in case db update_sql update_sql_params of
                                    Inl e \<Rightarrow> (model_objs, w1, Inl e)
                                  | Inr rows \<Rightarrow>
                                      (case fetch_rows (get_returning_sql returning m False) rows of
                                         Inl e \<Rightarrow> (model_objs, w1, Inl e)
                                       | Inr updated_rows \<Rightarrow>
                                           (model_objs, w1,
                                            Inr (if truthy returning then Some updated_rows
                                                 else None)))))))))"

subsection \<open>Placeholders in a statement text\<close>

text \<open>
  How the driver reads a statement text: \<^verbatim>\<open>%s\<close> is a positional placeholder and
  \<^verbatim>\<open>%%\<close> a literal percent sign; both are consumed as a pair.
\<close>

fun count_placeholders :: "string \<Rightarrow> nat" where
  "count_placeholders [] = 0"
| "count_placeholders [c] = 0"
| "count_placeholders (c # d # cs) =
     (if c = CHR ''%''
      then (if d = CHR ''s'' then Suc (count_placeholders cs) else count_placeholders cs)
      else count_placeholders (d # cs))"

definition percent_free :: "string \<Rightarrow> bool" where
  "percent_free s = (CHR ''%'' \<notin> set s)"

text \<open>
  The names and fragments a statement is assembled from contain no percent sign: the table
  name, the column and type names of the fields, the expression texts of the update fields
  and the columns asked for in \<^verbatim>\<open>returning\<close>.
\<close>

definition percent_free_field :: "model_field \<Rightarrow> bool" where
  "percent_free_field f = (percent_free (column f) \<and> percent_free (db_type f))"

definition percent_free_model :: "model \<Rightarrow> bool" where
  "percent_free_model m =
     (percent_free (db_table m) \<and> list_all percent_free_field (meta_fields m))"

definition percent_free_update_fields :: "update_field list \<Rightarrow> bool" where
  "percent_free_update_fields us =
     list_all (\<lambda>u. case expression u of None \<Rightarrow> True | Some e \<Rightarrow> percent_free e) us"

fun percent_free_returning :: "returning \<Rightarrow> bool" where
  "percent_free_returning (RBool b) = True"
| "percent_free_returning (RList cs) = list_all percent_free cs"

text \<open>A text whose placeholders are counted independently of what follows it.\<close>

definition separable :: "string \<Rightarrow> bool" where
  "separable a = (\<forall>b. count_placeholders (a @ b) = count_placeholders a + count_placeholders b)"

text \<open>A dictionary of SQL fragments none of which contains a percent sign.\<close>

definition clean_dict :: "(string \<times> string) list \<Rightarrow> bool" where
  "clean_dict d = list_all (\<lambda>kv. percent_free (snd kv)) d"

subsection \<open>An order that agrees with Python's comparisons\<close>



subsection \<open>A model and records to evaluate on\<close>

definition plain_field :: "string \<Rightarrow> string \<Rightarrow> model_field" where
  "plain_field n t =
     \<lparr>name = n, attname = n, column = n, db_type = t, primary_key = False, generated = False,
      concrete = True, auto_now = False, auto_now_add = False, is_auto_field = False,
      get_db_prep_save = (\<lambda>v. v)\<rparr>"

definition id_field :: model_field where
  "id_field = (plain_field ''id'' ''integer'')\<lparr>primary_key := True, is_auto_field := True\<rparr>"

text \<open>
  \<^verbatim>\<open>class Account(Model)\<close> with an automatic primary key \<^verbatim>\<open>id\<close>, a unique, nullable
  \<^verbatim>\<open>email\<close>, a counter, and the two timestamps \<^verbatim>\<open>created\<close> (\<^verbatim>\<open>auto_now_add\<close>) and
  \<^verbatim>\<open>modified\<close> (\<^verbatim>\<open>auto_now\<close>).
\<close>

definition account :: model where
  "account =
     \<lparr>db_table = ''account'',
      meta_fields =
        [id_field, plain_field ''email'' ''varchar'', plain_field ''count'' ''integer'',
         (plain_field ''created'' ''timestamp'')\<lparr>auto_now_add := True\<rparr>,
         (plain_field ''modified'' ''timestamp'')\<lparr>auto_now := True\<rparr>],
      meta_pk = Some id_field\<rparr>"

definition account_obj :: "pyval \<Rightarrow> pyval \<Rightarrow> pyval \<Rightarrow> model_obj" where
  "account_obj i e c = (\<lambda>a. PNone)(''id'' := i, ''email'' := e, ''count'' := c)"

definition two_accounts :: "model_obj list" where
  "two_accounts =
     [account_obj (PInt 2) (PStr ''b'') (PInt 5), account_obj (PInt 1) (PStr ''a'') (PInt 1)]"

definition world0 :: world where
  "world0 = \<lparr>clock = 0, executed = []\<rparr>"

text \<open>A backend that answers every statement with two rows: one inserted, one updated.\<close>

definition two_rows :: backend where
  "two_rows sql args =
     Inr [\<lparr>stored = account_obj (PInt 1) (PStr ''a'') (PInt 1), xmax = 0\<rparr>,
          \<lparr>stored = account_obj (PInt 2) (PStr ''b'') (PInt 5), xmax = 7\<rparr>]"

text \<open>
  \<^verbatim>\<open>class Member(Model)\<close> with a foreign key \<^verbatim>\<open>org\<close>: its name is \<^verbatim>\<open>org\<close>, its attname
  and its column are \<^verbatim>\<open>org_id\<close>. \<open>quoted_percent_s\<close> is the text of the expression
  \<^verbatim>\<open>Value("%s")\<close>: the string literal \<^verbatim>\<open>'%s'\<close>.
\<close>

definition org_field :: model_field where
  "org_field = (plain_field ''org'' ''integer'')\<lparr>attname := ''org_id'', column := ''org_id''\<rparr>"

definition member :: model where
  "member =
     \<lparr>db_table = ''member'',
      meta_fields = [id_field, org_field, plain_field ''role'' ''varchar''],
      meta_pk = Some id_field\<rparr>"

definition member_obj :: "pyval \<Rightarrow> pyval \<Rightarrow> pyval \<Rightarrow> model_obj" where
  "member_obj i g r = (\<lambda>a. PNone)(''id'' := i, ''org_id'' := g, ''role'' := r)"

definition quoted_percent_s :: string where
  "quoted_percent_s = [CHR 0x27] @ ''%s'' @ [CHR 0x27]"

section \<open>Field selector\<close>

lemma fields_dict_SomeD: "fields_dict fs n = Some f \<Longrightarrow> f \<in> set fs"
  by (auto simp: fields_dict_def dest!: map_of_SomeD)

lemma model_fields_memD:
  "f \<in> set (model_fields m) \<Longrightarrow> f \<in> set (meta_fields m) \<and> \<not> generated f \<and> concrete f"
  by (simp add: model_fields_def)

lemma keep_update_fields_sound:
  "keep_update_fields fdict exclude us = Inr r \<Longrightarrow> u \<in> set r \<Longrightarrow>
     u \<in> set us \<and> uf_name u \<notin> set exclude \<and>
     (\<exists>f. fdict (uf_name u) = Some f \<and> \<not> auto_now_add f \<and> \<not> primary_key f)"
proof (induction us arbitrary: r)
  case Nil
  then show ?case by simp
next
  case (Cons a as)
  then show ?case
    by (auto split: if_splits option.splits sum.splits)
qed

lemma get_update_fields_sound:
  assumes "get_update_fields m to_update exclude = Inr us" and "u \<in> set us"
  shows "uf_name u \<notin> set (case exclude of None \<Rightarrow> [] | Some ex \<Rightarrow> ex)"
    and "\<exists>f \<in> set (model_fields m). fields_dict (model_fields m) (uf_name u) = Some f
            \<and> \<not> auto_now_add f \<and> \<not> primary_key f \<and> \<not> generated f \<and> concrete f"
proof -
  from assms show "uf_name u \<notin> set (case exclude of None \<Rightarrow> [] | Some ex \<Rightarrow> ex)"
    unfolding get_update_fields_def Let_def by (auto dest: keep_update_fields_sound)
  from assms obtain f where f: "fields_dict (model_fields m) (uf_name u) = Some f"
      "\<not> auto_now_add f" "\<not> primary_key f"
    unfolding get_update_fields_def Let_def by (auto dest: keep_update_fields_sound)
  from f(1) have "f \<in> set (model_fields m)" by (rule fields_dict_SomeD)
  with f model_fields_memD[of f m]
  show "\<exists>f \<in> set (model_fields m). fields_dict (model_fields m) (uf_name u) = Some f
            \<and> \<not> auto_now_add f \<and> \<not> primary_key f \<and> \<not> generated f \<and> concrete f"
    by blast
qed

text \<open>
  Whatever update fields and exclusions the caller gives, every name in the update fields
  that \<^verbatim>\<open>_get_update_fields\<close> returns (the call of \<^verbatim>\<open>_update\<close>) is the key of a field in
  the \<^verbatim>\<open>fields\<close> dictionary that is not a primary key, not generated and not
  \<^verbatim>\<open>auto_now_add\<close>; in \<^verbatim>\<open>_upsert\<close>, where the unique fields are appended to the
  exclusions, it is moreover none of the strings in \<^verbatim>\<open>unique_fields\<close>. This is a statement
  about names, as the caller wrote them, not about columns.
\<close>

lemma update_fields_exclusion:
  "(get_update_fields m update_fields exclude = Inr us \<longrightarrow>
      (\<forall>u \<in> set us. \<exists>f. fields_dict (model_fields m) (uf_name u) = Some f
            \<and> \<not> primary_key f \<and> \<not> generated f \<and> \<not> auto_now_add f))
   \<and> (upsert_update_fields m unique_fields update_fields exclude = Inr us' \<longrightarrow>
      (\<forall>u \<in> set us'. uf_name u \<notin> set unique_fields \<and>
         (\<exists>f. fields_dict (model_fields m) (uf_name u) = Some f
            \<and> \<not> primary_key f \<and> \<not> generated f \<and> \<not> auto_now_add f)))"
proof (intro conjI impI ballI)
  fix u assume "get_update_fields m update_fields exclude = Inr us" "u \<in> set us"
  from get_update_fields_sound(2)[OF this]
  show "\<exists>f. fields_dict (model_fields m) (uf_name u) = Some f
            \<and> \<not> primary_key f \<and> \<not> generated f \<and> \<not> auto_now_add f" by blast
next
  fix u
  assume a: "upsert_update_fields m unique_fields update_fields exclude = Inr us'" "u \<in> set us'"
  from get_update_fields_sound(1)[OF a[unfolded upsert_update_fields_def]]
  show "uf_name u \<notin> set unique_fields" by simp
  from get_update_fields_sound(2)[OF a[unfolded upsert_update_fields_def]]
  show "\<exists>f. fields_dict (model_fields m) (uf_name u) = Some f
            \<and> \<not> primary_key f \<and> \<not> generated f \<and> \<not> auto_now_add f" by blast
qed

text \<open>
  C2. The update columns of an upsert are to contain none of the uniqueness columns, and
  \<^verbatim>\<open>_upsert\<close> appends the unique fields to the exclusions for that purpose. But
  \<^verbatim>\<open>_get_update_fields\<close> compares the strings, while a field answers to its name and to
  its attname. On \<^verbatim>\<open>Member\<close> with \<^verbatim>\<open>unique_fields=["org"]\<close> and the default update fields,
  which are attnames, \<^verbatim>\<open>org_id\<close> stays among the update fields; the conflict target
  resolves to the column \<^verbatim>\<open>org_id\<close>, the update fields resolve to \<^verbatim>\<open>org_id\<close> and \<^verbatim>\<open>role\<close>,
  and the statement that \<^verbatim>\<open>_upsert\<close> executes sets the uniqueness column \<^verbatim>\<open>org_id\<close> in its
  conflict arm.
\<close>

theorem unique_column_updated_under_other_name:
  "upsert_update_fields member [''org''] None None
     = Inr [UpdateField ''org_id'' None, UpdateField ''role'' None]
   \<and> map_err (field_column member) [''org''] = Inr [''org_id'']
   \<and> map_err (field_column member) (map uf_name [UpdateField ''org_id'' None, UpdateField ''role'' None])
     = Inr [''org_id'', ''role'']
   \<and> get_upsert_on_conflict member [UpdateField ''org_id'' None, UpdateField ''role'' None] False
     = Inr (''DO UPDATE SET '' @ quote ''org_id'' @ '' = EXCLUDED.'' @ quote ''org_id'' @ '', ''
            @ quote ''role'' @ '' = EXCLUDED.'' @ quote ''role'' @ '' '')
   \<and> map fst (executed (fst (snd (upsert_impl two_rows member
        [member_obj (PInt 1) (PInt 9) (PStr ''x''), member_obj (PInt 2) (PInt 3) (PStr ''y'')]
        [''org''] None None (RBool False) False world0))))
     = ['' INSERT INTO member ('' @ quote ''org_id'' @ '', '' @ quote ''role''
        @ '') VALUES (%s::integer, %s::varchar), (%s, %s) ON CONFLICT ('' @ quote ''org_id''
        @ '') DO UPDATE SET '' @ quote ''org_id'' @ '' = EXCLUDED.'' @ quote ''org_id'' @ '', ''
        @ quote ''role'' @ '' = EXCLUDED.'' @ quote ''role'' @ ''  '']"
  by code_simp

section \<open>Records, clock and executed statements\<close>

lemma set_auto_fields_apply:
  "set_auto_fields names now v a = (if a \<in> set names then now else v a)"
  unfolding set_auto_fields_def
  by (induction names arbitrary: v) auto

lemma fill_auto_fields_eq:
  "fill_auto_fields m vals w =
     (map (set_auto_fields (auto_field_names m) (PTime (clock w))) vals, w\<lparr>clock := Suc (clock w)\<rparr>)"
  by (simp add: fill_auto_fields_def timezone_now_def Let_def)

lemma upsert_impl_fst:
  "fst (upsert_impl db m objs uq uf ex ret ig w) = fst (fill_auto_fields m objs w)"
  by (simp add: upsert_impl_def Let_def split: prod.splits sum.splits option.splits)

lemma upsert_impl_clock:
  "clock (fst (snd (upsert_impl db m objs uq uf ex ret ig w))) = Suc (clock w)"
  by (simp add: upsert_impl_def fill_auto_fields_eq Let_def split: prod.splits sum.splits option.splits)

lemma update_impl_fst:
  "fst (update_impl db m objs uf ex ret ig w) = objs"
  by (simp add: update_impl_def Let_def split: prod.splits sum.splits option.splits)

lemma update_impl_clock:
  "clock (fst (snd (update_impl db m objs uf ex ret ig w))) = clock w"
  by (simp add: update_impl_def Let_def split: prod.splits sum.splits option.splits)

lemma map_err_Inr_iff:
  "map_err g xs = Inr ys \<longleftrightarrow> list_all2 (\<lambda>x y. g x = Inr y) xs ys"
proof
  show "map_err g xs = Inr ys \<Longrightarrow> list_all2 (\<lambda>x y. g x = Inr y) xs ys"
    by (induction xs arbitrary: ys) (auto split: sum.splits)
  show "list_all2 (\<lambda>x y. g x = Inr y) xs ys \<Longrightarrow> map_err g xs = Inr ys"
    by (induction rule: list_all2_induct) auto
qed

lemma map_err_total:
  "(\<And>x. x \<in> set xs \<Longrightarrow> \<exists>y. g x = Inr y) \<Longrightarrow> \<exists>ys. map_err g xs = Inr ys"
proof (induction xs)
  case Nil
  then show ?case by simp
next
  case (Cons a xs)
  from Cons.prems[of a] obtain y where "g a = Inr y" by auto
  moreover from Cons obtain ys where "map_err g xs = Inr ys" by auto
  ultimately show ?case by simp
qed

lemma map_err_length: "map_err g xs = Inr ys \<Longrightarrow> length ys = length xs"
  by (simp add: map_err_Inr_iff list_all2_lengthD)

lemma fields_dict_dom:
  "(\<exists>f. fields_dict fs n = Some f) \<longleftrightarrow> n \<in> name ` set fs \<union> attname ` set fs"
proof -
  have "(fields_dict fs n \<noteq> None) \<longleftrightarrow> n \<in> name ` set fs \<union> attname ` set fs"
    unfolding fields_dict_def map_of_eq_None_iff by (force simp: image_Un image_image)
  then show ?thesis by auto
qed

lemma fields_dict_model_fields:
  assumes "fields_dict (model_fields m) n = Some f"
  shows "\<exists>g. fields_dict (meta_fields m) n = Some g"
proof -
  from assms have "n \<in> name ` set (model_fields m) \<union> attname ` set (model_fields m)"
    using fields_dict_dom by blast
  then have "n \<in> name ` set (meta_fields m) \<union> attname ` set (meta_fields m)"
    by (auto simp: model_fields_def)
  then show ?thesis using fields_dict_dom by blast
qed

lemma selected_columns_exist:
  assumes "get_update_fields m to_update exclude = Inr us"
  shows "\<exists>cols. map_err (field_column m) (map uf_name us) = Inr cols"
proof (rule map_err_total)
  fix n assume "n \<in> set (map uf_name us)"
  then obtain u where u: "u \<in> set us" "n = uf_name u" by auto
  from get_update_fields_sound(2)[OF assms u(1)] obtain f
    where "fields_dict (model_fields m) n = Some f" using u(2) by blast
  from fields_dict_model_fields[OF this] show "\<exists>y. field_column m n = Inr y"
    by (auto simp: field_column_def get_field_def)
qed

lemma get_upsert_sql_args:
  "get_upsert_sql m objs uq ufs ret ig = Inr (sql, args) \<Longrightarrow>
     args = concat (map (\<lambda>obj. get_values_for_row obj (upsert_all_fields m uq)) objs)"
  by (auto simp: get_upsert_sql_def get_values_for_rows_def Let_def split: sum.splits)

lemma upsert_impl_executed:
  "executed (fst (snd (upsert_impl db m objs uq uf ex ret ig w))) = executed w
   \<or> (\<exists>sorted_objs sql.
         sort_by_unique_fields m (fst (fill_auto_fields m objs w)) uq = Inr sorted_objs
       \<and> executed (fst (snd (upsert_impl db m objs uq uf ex ret ig w)))
           = executed w @ [(sql, prep_sql_args (concat (map (\<lambda>obj. get_values_for_row obj
                  (upsert_all_fields m uq)) sorted_objs)))])"
proof (cases "sort_by_unique_fields m (fst (fill_auto_fields m objs w)) uq")
  case (Inl e)
  then show ?thesis
    by (simp add: upsert_impl_def fill_auto_fields_eq)
next
  case (Inr sorted_objs)
  then show ?thesis
    by (auto simp: upsert_impl_def fill_auto_fields_eq Let_def dest!: get_upsert_sql_args
        split: sum.splits prod.splits)
qed

text \<open>
  C10. In \<^verbatim>\<open>_upsert\<close> every \<^verbatim>\<open>auto_now\<close> and \<^verbatim>\<open>auto_now_add\<close> field of the model, in every
  record of the batch, holds after the call the one instant at which the call began, and
  the clock has been read exactly once, whatever else the call does (also when it raises).
\<close>

theorem auto_fields_one_timestamp:
  "(\<forall>obj \<in> set (fst (upsert_impl db m objs uq uf ex ret ig w)).
      \<forall>f \<in> set (model_fields m). auto_now f \<or> auto_now_add f \<longrightarrow> obj (attname f) = PTime (clock w))
   \<and> length (fst (upsert_impl db m objs uq uf ex ret ig w)) = length objs
   \<and> clock (fst (snd (upsert_impl db m objs uq uf ex ret ig w))) = Suc (clock w)"
  by (auto simp: upsert_impl_fst upsert_impl_clock fill_auto_fields_eq set_auto_fields_apply auto_field_names_def)

theorem auto_fields_one_timestamp_witness:
  "(fst (upsert_impl two_rows account two_accounts [''email''] None None (RBool True) False world0) ! 0) ''created''
       = PTime 0
   \<and> (fst (upsert_impl two_rows account two_accounts [''email''] None None (RBool True) False world0) ! 1) ''modified''
       = PTime 0
   \<and> clock (fst (snd (upsert_impl two_rows account two_accounts [''email''] None None (RBool True) False world0))) = 1"
proof -
  have f: "(plain_field ''created'' ''timestamp'')\<lparr>auto_now_add := True\<rparr> \<in> set (model_fields account)"
    "(plain_field ''modified'' ''timestamp'')\<lparr>auto_now := True\<rparr> \<in> set (model_fields account)"
    by (simp_all add: model_fields_def account_def plain_field_def id_field_def)
  have l: "length two_accounts = 2" by (simp add: two_accounts_def)
  have c: "clock world0 = 0" by (simp add: world0_def)
  from auto_fields_one_timestamp[where db = two_rows and m = account and objs = two_accounts
        and uq = "[''email'']" and uf = None and ex = None and ret = "RBool True" and ig = False
        and w = world0]
  have *: "\<forall>obj\<in>set (fst (upsert_impl two_rows account two_accounts [''email''] None None (RBool True) False world0)).
      \<forall>f\<in>set (model_fields account). auto_now f \<or> auto_now_add f \<longrightarrow> obj (attname f) = PTime 0"
    and **: "length (fst (upsert_impl two_rows account two_accounts [''email''] None None (RBool True) False world0)) = 2"
    and ***: "clock (fst (snd (upsert_impl two_rows account two_accounts [''email''] None None (RBool True) False world0))) = 1"
    using l c by simp_all
  from ** have "fst (upsert_impl two_rows account two_accounts [''email''] None None (RBool True) False world0) ! 0
       \<in> set (fst (upsert_impl two_rows account two_accounts [''email''] None None (RBool True) False world0))"
    "fst (upsert_impl two_rows account two_accounts [''email''] None None (RBool True) False world0) ! 1
       \<in> set (fst (upsert_impl two_rows account two_accounts [''email''] None None (RBool True) False world0))"
    by simp_all
  with * f *** show ?thesis
    by (fastforce simp: plain_field_def)
qed

lemma get_update_sql_args:
  "get_update_sql m pk objs ufs ret ig = Inr (Some (sql, params)) \<Longrightarrow>
     \<exists>row_values.
        map_err (\<lambda>obj. map_err (value_of_field m obj) (value_fields pk ufs)) objs = Inr row_values
      \<and> params = prep_sql_args (concat row_values)"
  by (auto simp: get_update_sql_def Let_def split: sum.splits prod.splits if_splits)

lemma update_impl_executed:
  "executed (fst (snd (update_impl db m objs uf ex ret ig w))) = executed w
   \<or> (\<exists>pk ufs sorted_objs row_values sql.
         meta_pk m = Some pk \<and> get_update_fields m uf ex = Inr ufs
       \<and> sort_by_pk m objs = Inr sorted_objs
       \<and> map_err (\<lambda>obj. map_err (value_of_field m obj) (value_fields pk ufs)) sorted_objs
           = Inr row_values
       \<and> executed (fst (snd (update_impl db m objs uf ex ret ig w)))
           = executed w @ [(sql, prep_sql_args (concat row_values))])"
proof (cases "get_update_fields m uf ex")
  case (Inl e)
  then show ?thesis by (simp add: update_impl_def)
next
  case ufs: (Inr ufs)
  show ?thesis
  proof (cases "map_err (field_column m) (map uf_name ufs)")
    case (Inl e)
    with ufs show ?thesis by (simp add: update_impl_def)
  next
    case cols: (Inr cols)
    show ?thesis
    proof (cases "sort_by_pk m objs")
      case (Inl e)
      with ufs cols show ?thesis by (simp add: update_impl_def)
    next
      case sorted: (Inr sorted_objs)
      show ?thesis
      proof (cases "meta_pk m")
        case None
        with ufs cols sorted show ?thesis by (simp add: update_impl_def)
      next
        case pk: (Some pk)
        show ?thesis
        proof (cases "get_update_sql m pk sorted_objs ufs ret ig")
          case (Inl e)
          with ufs cols sorted pk show ?thesis by (simp add: update_impl_def)
        next
          case (Inr r)
          show ?thesis
          proof (cases r)
            case None
            with Inr ufs cols sorted pk show ?thesis by (simp add: update_impl_def)
          next
            case (Some sp)
            obtain sql params where sp: "sp = (sql, params)" by (cases sp)
            from Inr Some sp
            have g: "get_update_sql m pk sorted_objs ufs ret ig = Inr (Some (sql, params))"
              by simp
            from get_update_sql_args[OF g] obtain row_values
              where rv: "map_err (\<lambda>obj. map_err (value_of_field m obj) (value_fields pk ufs))
                           sorted_objs = Inr row_values"
                and pa: "params = prep_sql_args (concat row_values)"
              by blast
            have "executed (fst (snd (update_impl db m objs uf ex ret ig w)))
                    = executed w @ [(sql, params)]"
              using ufs cols sorted pk g
              by (simp add: update_impl_def Let_def split: sum.splits)
            with ufs sorted pk rv pa show ?thesis by blast
          qed
        qed
      qed
    qed
  qed
qed

text \<open>
  C9. \<^verbatim>\<open>_upsert\<close> stores the instant of the call in every \<^verbatim>\<open>auto_now\<close> and
  \<^verbatim>\<open>auto_now_add\<close> field of every record of the caller, and every attribute that is not
  the attname of such a field keeps its value; the arguments of the statement it executes,
  if it executes one, are extracted from the records so populated (sorted), so population
  comes first. \<^verbatim>\<open>_update\<close> populates nothing: it leaves the caller's records as they are,
  and the arguments of the statement it executes, if it executes one, are extracted from
  the records as the caller gave them (sorted), the \<^verbatim>\<open>auto_now\<close> fields included.
\<close>

theorem records_frame:
  "length (fst (upsert_impl db m objs uq uf ex ret ig w)) = length objs
   \<and> (\<forall>i < length objs. \<forall>f \<in> set (model_fields m). auto_now f \<or> auto_now_add f \<longrightarrow>
         (fst (upsert_impl db m objs uq uf ex ret ig w) ! i) (attname f) = PTime (clock w))
   \<and> (\<forall>i < length objs. \<forall>a.
         (\<forall>f \<in> set (model_fields m). auto_now f \<or> auto_now_add f \<longrightarrow> a \<noteq> attname f) \<longrightarrow>
         (fst (upsert_impl db m objs uq uf ex ret ig w) ! i) a = (objs ! i) a)
   \<and> (executed (fst (snd (upsert_impl db m objs uq uf ex ret ig w))) = executed w
      \<or> (\<exists>sorted_objs sql.
            sort_by_unique_fields m (fst (upsert_impl db m objs uq uf ex ret ig w)) uq
              = Inr sorted_objs
          \<and> executed (fst (snd (upsert_impl db m objs uq uf ex ret ig w)))
              = executed w @ [(sql, prep_sql_args (concat (map (\<lambda>obj. get_values_for_row obj
                     (upsert_all_fields m uq)) sorted_objs)))]))
   \<and> fst (update_impl db m objs uf ex ret ig w) = objs
   \<and> (executed (fst (snd (update_impl db m objs uf ex ret ig w))) = executed w
      \<or> (\<exists>pk ufs sorted_objs row_values sql.
            meta_pk m = Some pk \<and> get_update_fields m uf ex = Inr ufs
          \<and> sort_by_pk m objs = Inr sorted_objs
          \<and> map_err (\<lambda>obj. map_err (value_of_field m obj) (value_fields pk ufs)) sorted_objs
              = Inr row_values
          \<and> executed (fst (snd (update_impl db m objs uf ex ret ig w)))
              = executed w @ [(sql, prep_sql_args (concat row_values))]))"
proof (intro conjI)
  show "length (fst (upsert_impl db m objs uq uf ex ret ig w)) = length objs"
    by (simp add: upsert_impl_fst fill_auto_fields_eq)
  show "\<forall>i < length objs. \<forall>f \<in> set (model_fields m). auto_now f \<or> auto_now_add f \<longrightarrow>
         (fst (upsert_impl db m objs uq uf ex ret ig w) ! i) (attname f) = PTime (clock w)"
    by (auto simp: upsert_impl_fst fill_auto_fields_eq set_auto_fields_apply auto_field_names_def)
  show "\<forall>i < length objs. \<forall>a.
         (\<forall>f \<in> set (model_fields m). auto_now f \<or> auto_now_add f \<longrightarrow> a \<noteq> attname f) \<longrightarrow>
         (fst (upsert_impl db m objs uq uf ex ret ig w) ! i) a = (objs ! i) a"
    by (auto simp: upsert_impl_fst fill_auto_fields_eq set_auto_fields_apply auto_field_names_def)
  show "executed (fst (snd (upsert_impl db m objs uq uf ex ret ig w))) = executed w
      \<or> (\<exists>sorted_objs sql.
            sort_by_unique_fields m (fst (upsert_impl db m objs uq uf ex ret ig w)) uq
              = Inr sorted_objs
          \<and> executed (fst (snd (upsert_impl db m objs uq uf ex ret ig w)))
              = executed w @ [(sql, prep_sql_args (concat (map (\<lambda>obj. get_values_for_row obj
                     (upsert_all_fields m uq)) sorted_objs)))])"
    using upsert_impl_executed[of db m objs uq uf ex ret ig w] unfolding upsert_impl_fst .
  show "fst (update_impl db m objs uf ex ret ig w) = objs"
    by (rule update_impl_fst)
  show "executed (fst (snd (update_impl db m objs uf ex ret ig w))) = executed w
      \<or> (\<exists>pk ufs sorted_objs row_values sql.
            meta_pk m = Some pk \<and> get_update_fields m uf ex = Inr ufs
          \<and> sort_by_pk m objs = Inr sorted_objs
          \<and> map_err (\<lambda>obj. map_err (value_of_field m obj) (value_fields pk ufs)) sorted_objs
              = Inr row_values
          \<and> executed (fst (snd (update_impl db m objs uf ex ret ig w)))
              = executed w @ [(sql, prep_sql_args (concat row_values))])"
    by (rule update_impl_executed)
qed

theorem records_frame_witness:
  "length (fst (upsert_impl two_rows account two_accounts [''email''] None None (RBool True) False world0)) = 2
   \<and> (fst (upsert_impl two_rows account two_accounts [''email''] None None (RBool True) False world0) ! 0) ''modified''
       = PTime 0
   \<and> (fst (upsert_impl two_rows account two_accounts [''email''] None None (RBool True) False world0) ! 0) ''count''
       = PInt 5
   \<and> (fst (upsert_impl two_rows account two_accounts [''email''] None None (RBool True) False world0) ! 1) ''email''
       = PStr ''a''
   \<and> map snd (executed (fst (snd (upsert_impl two_rows account two_accounts [''email''] None None
         (RBool True) False world0))))
       = [[PStr ''a'', PInt 1, PTime 0, PTime 0, PStr ''b'', PInt 5, PTime 0, PTime 0]]
   \<and> fst (update_impl two_rows account two_accounts None None (RBool True) False world0) = two_accounts"
proof -
  have f: "(plain_field ''modified'' ''timestamp'')\<lparr>auto_now := True\<rparr> \<in> set (model_fields account)"
    by (simp add: model_fields_def account_def plain_field_def id_field_def)
  have n: "\<forall>f \<in> set (model_fields account). auto_now f \<or> auto_now_add f \<longrightarrow> ''count'' \<noteq> attname f"
    "\<forall>f \<in> set (model_fields account). auto_now f \<or> auto_now_add f \<longrightarrow> ''email'' \<noteq> attname f"
    by (simp_all add: model_fields_def account_def plain_field_def id_field_def)
  have l: "length two_accounts = 2" "(two_accounts ! 0) ''count'' = PInt 5"
    "(two_accounts ! 1) ''email'' = PStr ''a''"
    by (simp_all add: two_accounts_def account_obj_def)
  have c: "clock world0 = 0" by (simp add: world0_def)
  have e: "map snd (executed (fst (snd (upsert_impl two_rows account two_accounts [''email''] None None
         (RBool True) False world0))))
       = [[PStr ''a'', PInt 1, PTime 0, PTime 0, PStr ''b'', PInt 5, PTime 0, PTime 0]]"
    by code_simp
  from records_frame[where db = two_rows and m = account and objs = two_accounts
        and uq = "[''email'']" and uf = None and ex = None and ret = "RBool True" and ig = False
        and w = world0]
  have 1: "length (fst (upsert_impl two_rows account two_accounts [''email''] None None (RBool True) False world0)) = 2"
    and 2: "\<forall>i < 2. \<forall>f \<in> set (model_fields account). auto_now f \<or> auto_now_add f \<longrightarrow>
         (fst (upsert_impl two_rows account two_accounts [''email''] None None (RBool True) False world0) ! i)
           (attname f) = PTime 0"
    and 3: "\<forall>i < 2. \<forall>a.
         (\<forall>f \<in> set (model_fields account). auto_now f \<or> auto_now_add f \<longrightarrow> a \<noteq> attname f) \<longrightarrow>
         (fst (upsert_impl two_rows account two_accounts [''email''] None None (RBool True) False world0) ! i) a
           = (two_accounts ! i) a"
    and 4: "fst (update_impl two_rows account two_accounts None None (RBool True) False world0) = two_accounts"
    unfolding l(1) c by blast+
  from 2 f
  have m: "(fst (upsert_impl two_rows account two_accounts [''email''] None None (RBool True) False world0) ! 0)
      ''modified'' = PTime 0"
    by (fastforce simp: plain_field_def)
  from 3 n(1) l(2)
  have k: "(fst (upsert_impl two_rows account two_accounts [''email''] None None (RBool True) False world0) ! 0)
      ''count'' = PInt 5"
    by (metis zero_less_numeral)
  from 3 n(2) l(3)
  have a: "(fst (upsert_impl two_rows account two_accounts [''email''] None None (RBool True) False world0) ! 1)
      ''email'' = PStr ''a''"
    by (metis one_less_numeral_iff semiring_norm(76))
  from 1 m k a e 4 show ?thesis by blast
qed

text \<open>
  The claim as stated fails for \<^verbatim>\<open>_update\<close>, which has no call of \<^verbatim>\<open>_fill_auto_fields\<close>:
  \<^verbatim>\<open>modified\<close> is an \<^verbatim>\<open>auto_now\<close> field of the model, it is among the update fields, and the
  statement is executed with the \<^verbatim>\<open>None\<close> that the records hold for it.
\<close>

theorem update_extracts_unpopulated_auto_now:
  "map auto_now (filter (\<lambda>f. attname f = ''modified'') (model_fields account)) = [True]
   \<and> map (\<lambda>obj. obj ''modified'') two_accounts = [PNone, PNone]
   \<and> map (\<lambda>obj. obj ''modified'')
       (fst (update_impl two_rows account two_accounts None None (RBool False) False world0))
       = [PNone, PNone]
   \<and> map uf_name (case get_update_fields account None None of Inl e \<Rightarrow> [] | Inr ufs \<Rightarrow> ufs)
       = [''email'', ''count'', ''modified'']
   \<and> map snd (executed (fst (snd (update_impl two_rows account two_accounts None None
         (RBool False) False world0))))
       = [[PInt 1, PStr ''a'', PInt 1, PNone, PInt 2, PStr ''b'', PInt 5, PNone]]"
  by code_simp

section \<open>Row sequencer\<close>




























text \<open>
  The hypothesis that the unique fields are listed by attname is needed: the sequencer
  tests \<^verbatim>\<open>field.attname in unique_fields\<close>, so a unique field given by its name (\<^verbatim>\<open>org\<close>
  for the column \<^verbatim>\<open>org_id\<close>) contributes nothing to the key, all keys are the empty tuple,
  and the batch comes back in the caller's order, not in the order of the key column.
\<close>

lemma sequencer_skips_field_listed_by_name:
  "\<not> listed_by_attname member [''org'']
   \<and> map attname (key_fields member [''org'']) = [''org_id'']
   \<and> map attname (unique_db_fields member [''org'']) = []
   \<and> map (\<lambda>obj. obj ''org_id'')
       (case sort_by_unique_fields member
               [member_obj (PInt 1) (PInt 9) (PStr ''x''), member_obj (PInt 2) (PInt 3) (PStr ''y'')]
               [''org'']
        of Inl e \<Rightarrow> [] | Inr ys \<Rightarrow> ys) = [PInt 9, PInt 3]
   \<and> map (\<lambda>obj. obj ''org_id'')
       (case sort_by_unique_fields member
               [member_obj (PInt 1) (PInt 9) (PStr ''x''), member_obj (PInt 2) (PInt 3) (PStr ''y'')]
               [''org_id'']
        of Inl e \<Rightarrow> [] | Inr ys \<Rightarrow> ys) = [PInt 3, PInt 9]"
  by code_simp

section \<open>Empty batches and invalid calls\<close>

text \<open>
  C3, as the code has it. On an empty batch with \<^verbatim>\<open>returning=True\<close> neither operation
  executes a statement. \<^verbatim>\<open>_update\<close> returns \<^verbatim>\<open>None\<close> (unless the field selection raises or
  the model has no primary key); \<^verbatim>\<open>_upsert\<close> returns \<^verbatim>\<open>UpsertResult([])\<close>, an empty
  collection (unless the field selection raises), after reading the clock.
\<close>

theorem empty_batch:
  "upsert_impl db m [] uq uf ex (RBool True) ig w =
     ([], w\<lparr>clock := Suc (clock w)\<rparr>,
      case upsert_update_fields m uq uf ex of Inl e \<Rightarrow> Inl e | Inr ufs \<Rightarrow> Inr (Some []))
   \<and> update_impl db m [] uf ex (RBool True) ig w =
     ([], w,
      case get_update_fields m uf ex of
        Inl e \<Rightarrow> Inl e
      | Inr ufs \<Rightarrow>
          (case meta_pk m of
             None \<Rightarrow> Inl (ValueError ''Model must have a primary key to perform a bulk update.'')
           | Some pk \<Rightarrow> Inr None))"
proof
  show "upsert_impl db m [] uq uf ex (RBool True) ig w =
     ([], w\<lparr>clock := Suc (clock w)\<rparr>,
      case upsert_update_fields m uq uf ex of Inl e \<Rightarrow> Inl e | Inr ufs \<Rightarrow> Inr (Some []))"
    by (simp add: upsert_impl_def fill_auto_fields_eq sort_by_unique_fields_def split: sum.splits)
next
  show "update_impl db m [] uf ex (RBool True) ig w =
     ([], w,
      case get_update_fields m uf ex of
        Inl e \<Rightarrow> Inl e
      | Inr ufs \<Rightarrow>
          (case meta_pk m of
             None \<Rightarrow> Inl (ValueError ''Model must have a primary key to perform a bulk update.'')
           | Some pk \<Rightarrow> Inr None))"
  proof (cases "get_update_fields m uf ex")
    case (Inl e)
    then show ?thesis by (simp add: update_impl_def)
  next
    case (Inr ufs)
    from selected_columns_exist[OF this] obtain cols
      where "map_err (field_column m) (map uf_name ufs) = Inr cols" by blast
    with Inr show ?thesis
      by (simp add: update_impl_def sort_by_pk_def get_update_sql_def split: option.splits)
  qed
qed

text \<open>The claim as stated fails for \<^verbatim>\<open>_upsert\<close>: the result is an empty collection.\<close>

theorem empty_batch_upsert_returns_collection:
  "snd (upsert_impl two_rows account [] [''email''] None None (RBool True) False world0)
     = (\<lparr>clock = 1, executed = []\<rparr>, Inr (Some []))"
  by code_simp











section \<open>Result rows\<close>

subsection \<open>Reading back the clause that \<^verbatim>\<open>_get_returning_sql\<close> wrote\<close>

lemma tl_quote_Nil: "tl (quote []) = [CHR 0x22]"
  by (simp add: quote_def)

lemma tl_quote_Cons:
  "tl (quote (c # s)) = (if c = CHR 0x22 then [c, c] else [c]) @ tl (quote s)"
  by (simp add: quote_def)

lemma quote_tl: "quote s = CHR 0x22 # tl (quote s)"
  by (simp add: quote_def)

lemma tl_quote_not_Nil: "tl (quote s) \<noteq> []"
  by (simp add: quote_def)

lemma split_select_quoted:
  "split_select cur True (tl (quote s) @ rest) = split_select (cur @ tl (quote s)) False rest"
proof (induction s arbitrary: cur)
  case Nil
  show ?case by (simp add: tl_quote_Nil)
next
  case (Cons c s)
  show ?case
  proof (cases "c = CHR 0x22")
    case True
    then show ?thesis using Cons[of "cur @ [c, c]"] by (simp add: tl_quote_Cons)
  next
    case False
    then show ?thesis using Cons[of "cur @ [c]"] by (simp add: tl_quote_Cons)
  qed
qed

lemma split_select_quote:
  "split_select cur False (quote s @ rest) = split_select (cur @ quote s) False rest"
proof -
  have "split_select cur False (quote s @ rest)
          = split_select (cur @ [CHR 0x22]) True (tl (quote s) @ rest)"
    by (subst quote_tl) simp
  also have "\<dots> = split_select ((cur @ [CHR 0x22]) @ tl (quote s)) False rest"
    by (rule split_select_quoted)
  also have "(cur @ [CHR 0x22]) @ tl (quote s) = cur @ quote s"
    by (subst (2) quote_tl) simp
  finally show ?thesis .
qed

lemma split_select_item:
  "split_select cur False (quote t @ ''.'' @ quote c @ rest)
     = split_select (cur @ quote t @ ''.'' @ quote c) False rest"
proof -
  have "split_select cur False (quote t @ ''.'' @ quote c @ rest)
          = split_select (cur @ quote t) False (''.'' @ quote c @ rest)"
    by (rule split_select_quote)
  also have "\<dots> = split_select ((cur @ quote t) @ ''.'') False (quote c @ rest)"
    by simp
  also have "\<dots> = split_select (((cur @ quote t) @ ''.'') @ quote c) False rest"
    by (rule split_select_quote)
  finally show ?thesis by simp
qed

lemma split_select_plain:
  "CHR 0x22 \<notin> set s \<Longrightarrow> CHR '','' \<notin> set s \<Longrightarrow> split_select cur q s = [cur @ s]"
  by (induction s arbitrary: cur) auto

lemma split_select_status_item: "split_select cur False status_item = [cur @ status_item]"
  by (rule split_select_plain) (simp_all add: status_item_def)

lemma status_sql_item: "status_sql = '', '' @ status_item"
  by (simp add: status_sql_def status_item_def)

lemma split_select_last:
  "split_select [] False (quote t @ ''.'' @ quote c @ status_sql)
     = [quote t @ ''.'' @ quote c, status_item]"
proof -
  have "split_select [] False (quote t @ ''.'' @ quote c @ status_sql)
          = split_select ([] @ quote t @ ''.'' @ quote c) False ('', '' @ status_item)"
    unfolding status_sql_item by (rule split_select_item)
  also have "\<dots> = (quote t @ ''.'' @ quote c) # split_select [] False status_item"
    by simp
  finally show ?thesis by (simp add: split_select_status_item)
qed

lemma split_select_next:
  "split_select [] False (quote t @ ''.'' @ quote c @ '', '' @ rest)
     = (quote t @ ''.'' @ quote c) # split_select [] False rest"
proof -
  have "split_select [] False (quote t @ ''.'' @ quote c @ '', '' @ rest)
          = split_select ([] @ quote t @ ''.'' @ quote c) False ('', '' @ rest)"
    by (rule split_select_item)
  then show ?thesis by simp
qed

lemma split_select_returning:
  "cols \<noteq> [] \<Longrightarrow>
     split_select [] False (join '', '' (map (\<lambda>c. quote t @ ''.'' @ quote c) cols) @ status_sql)
       = map (\<lambda>c. quote t @ ''.'' @ quote c) cols @ [status_item]"
proof (induction cols)
  case Nil
  then show ?case by simp
next
  case (Cons c cs)
  show ?case
  proof (cases cs)
    case Nil
    then show ?thesis using split_select_last[of t c] by simp
  next
    case (Cons d ds)
    with Cons.IH
    have ih: "split_select [] False
                (join '', '' (map (\<lambda>c. quote t @ ''.'' @ quote c) (d # ds)) @ status_sql)
              = map (\<lambda>c. quote t @ ''.'' @ quote c) (d # ds) @ [status_item]"
      by simp
    have "join '', '' (map (\<lambda>c. quote t @ ''.'' @ quote c) (c # d # ds)) @ status_sql
            = quote t @ ''.'' @ quote c @ '', ''
              @ (join '', '' (map (\<lambda>c. quote t @ ''.'' @ quote c) (d # ds)) @ status_sql)"
      by simp
    then have "split_select [] False
                 (join '', '' (map (\<lambda>c. quote t @ ''.'' @ quote c) (c # d # ds)) @ status_sql)
               = (quote t @ ''.'' @ quote c)
                 # split_select [] False
                     (join '', '' (map (\<lambda>c. quote t @ ''.'' @ quote c) (d # ds)) @ status_sql)"
      using split_select_next by simp
    with ih Cons show ?thesis by simp
  qed
qed

lemma read_quoted_quote:
  "rest = [] \<or> hd rest \<noteq> CHR 0x22 \<Longrightarrow>
     read_quoted acc (tl (quote s) @ rest) = Some (acc @ s, rest)"
proof (induction s arbitrary: acc)
  case Nil
  then show ?case by (cases rest) (auto simp: tl_quote_Nil)
next
  case (Cons c s)
  show ?case
  proof (cases "c = CHR 0x22")
    case True
    then show ?thesis using Cons.IH[OF Cons.prems, of "acc @ [c]"] by (simp add: tl_quote_Cons)
  next
    case False
    obtain d ds where d: "tl (quote s) @ rest = d # ds"
      using tl_quote_not_Nil[of s] by (cases "tl (quote s) @ rest") auto
    have "read_quoted acc (tl (quote (c # s)) @ rest) = read_quoted acc (c # d # ds)"
      using False d by (simp add: tl_quote_Cons)
    also have "\<dots> = read_quoted (acc @ [c]) (d # ds)"
      using False by simp
    also have "\<dots> = Some ((acc @ [c]) @ s, rest)"
      unfolding d[symmetric] by (rule Cons.IH[OF Cons.prems])
    finally show ?thesis by simp
  qed
qed

lemma read_ident_quote:
  "rest = [] \<or> hd rest \<noteq> CHR 0x22 \<Longrightarrow> read_ident (quote s @ rest) = Some (s, rest)"
  using read_quoted_quote[of rest "[]" s] by (subst quote_tl) simp

lemma parse_item_column: "parse_item (quote t @ ''.'' @ quote c) = Some (Column c)"
proof -
  have n: "quote t @ ''.'' @ quote c \<noteq> status_item"
    by (subst quote_tl) (simp add: status_item_def)
  have a: "read_ident (quote t @ ''.'' @ quote c) = Some (t, ''.'' @ quote c)"
    by (rule read_ident_quote) simp
  have b: "read_ident (quote c) = Some (c, [])"
    using read_ident_quote[of "[]" c] by simp
  show ?thesis using n a b by (simp add: parse_item_def)
qed

lemma parse_item_status: "parse_item status_item = Some StatusCase"
  by (simp add: parse_item_def)

lemma those_map_Some: "those (map Some xs) = Some xs"
  by (induction xs) simp_all

lemma parse_returning_status:
  assumes "returning_columns m ret \<noteq> []"
  shows "parse_returning (get_returning_sql ret m True)
           = Some (map Column (returning_columns m ret) @ [StatusCase])"
proof -
  let ?item = "\<lambda>c. quote (db_table m) @ ''.'' @ quote c"
  let ?cols = "returning_columns m ret"
  have s: "get_returning_sql ret m True = ''RETURNING '' @ (join '', '' (map ?item ?cols) @ status_sql)"
    using assms by (simp add: get_returning_sql_def Let_def)
  have "map parse_item (map ?item ?cols) = map Some (map Column ?cols)"
    unfolding map_map comp_def parse_item_column ..
  then have "map parse_item (map ?item ?cols @ [status_item])
          = map Some (map Column ?cols @ [StatusCase])"
    unfolding map_append by (simp only: parse_item_status list.map)
  then have "those (map parse_item (map ?item ?cols @ [status_item]))
          = Some (map Column ?cols @ [StatusCase])"
    by (simp only: those_map_Some)
  then show ?thesis
    unfolding s parse_returning_def using split_select_returning[OF assms, of "db_table m"]
    by simp
qed

subsection \<open>The rows of a result\<close>

lemma check_fields_distinct:
  "check_fields seen ns = Inr u \<Longrightarrow> distinct ns \<and> set ns \<inter> set seen = {}"
proof (induction ns arbitrary: seen)
  case Nil
  then show ?case by simp
next
  case (Cons a ns)
  from Cons.prems have a: "a \<notin> set seen" and c: "check_fields (a # seen) ns = Inr u"
    by (auto split: if_splits)
  from Cons.IH[OF c] have "distinct ns" "set ns \<inter> set (a # seen) = {}" by auto
  with a show ?case by auto
qed

lemma map_of_status_last:
  "''status_'' \<notin> set cols \<Longrightarrow>
     map_of (map (\<lambda>it. (item_name it, item_value it d)) (map Column cols @ [StatusCase])) ''status_''
       = Some (PStr (eval_status (xmax d)))"
  by (induction cols) auto

lemma fetch_rows_status:
  assumes "fetch_rows (get_returning_sql ret m True) rows = Inr rs" and "r \<in> set rs"
  shows "getattr_row r ''status_'' = Inr (PStr ''c'') \<or> getattr_row r ''status_'' = Inr (PStr ''u'')"
proof (cases "returning_columns m ret = []")
  case True
  then have "get_returning_sql ret m True = []" by (simp add: get_returning_sql_def)
  with assms show ?thesis by (simp add: fetch_rows_def)
next
  case False
  let ?cols = "returning_columns m ret"
  let ?items = "map Column ?cols @ [StatusCase]"
  have c: "get_returning_sql ret m True \<noteq> []"
    using False by (simp add: get_returning_sql_def Let_def)
  from assms(1) obtain u where n: "namedtuple (map item_name ?items) = Inr u"
    and rs: "rs = map (\<lambda>r. map (\<lambda>it. (item_name it, item_value it r)) ?items) rows"
    unfolding fetch_rows_def parse_returning_status[OF False] using c
    by (auto split: sum.splits)
  from n have "check_fields [] (?cols @ [''status_'']) = Inr u"
    by (auto simp: namedtuple_def comp_def split: sum.splits)
  from check_fields_distinct[OF this] have ns: "''status_'' \<notin> set ?cols" by auto
  have v: "getattr_row (map (\<lambda>it. (item_name it, item_value it d)) ?items) ''status_''
      = Inr (PStr (eval_status (xmax d)))" for d
    unfolding getattr_row_def map_of_status_last[OF ns] by simp
  from assms(2) rs obtain d
    where "r = map (\<lambda>it. (item_name it, item_value it d)) ?items" by auto
  with v[of d] show ?thesis by (cases "xmax d = 0") (simp_all add: eval_status_def)
qed

lemma upsert_impl_rows:
  assumes "snd (snd (upsert_impl db m objs uq uf ex ret ig w)) = Inr (Some rs)"
  shows "rs = [] \<or> (\<exists>rows. fetch_rows (get_returning_sql ret m True) rows = Inr rs)"
  using assms
  by (auto simp: upsert_impl_def Let_def split: prod.splits sum.splits if_splits)

lemma rows_with_status_filter:
  "(\<And>r. r \<in> set rs \<Longrightarrow> \<exists>v. getattr_row r ''status_'' = Inr v) \<Longrightarrow>
     rows_with_status tag rs = Inr (filter (\<lambda>r. getattr_row r ''status_'' = Inr (PStr tag)) rs)"
proof (induction rs)
  case Nil
  then show ?case by simp
next
  case (Cons a rs)
  from Cons.prems[of a] obtain v where v: "getattr_row a ''status_'' = Inr v" by auto
  from Cons have "rows_with_status tag rs
      = Inr (filter (\<lambda>r. getattr_row r ''status_'' = Inr (PStr tag)) rs)" by simp
  with v show ?case by simp
qed

lemma mset_filter_two:
  "(\<And>r. r \<in> set rs \<Longrightarrow> P r \<noteq> Q r) \<Longrightarrow> mset (filter P rs) + mset (filter Q rs) = mset rs"
  by (induction rs) auto

text \<open>
  C8. Every row of a result that \<^verbatim>\<open>_upsert\<close> returns carries in its field \<^verbatim>\<open>status_\<close>,
  the value of the status expression that \<^verbatim>\<open>_get_returning_sql\<close> wrote into the statement,
  exactly one of the two tags \<^verbatim>\<open>c\<close> and \<^verbatim>\<open>u\<close>. On such a result the views \<^verbatim>\<open>created\<close> and
  \<^verbatim>\<open>updated\<close> both return, and they split the result: together they are the whole result,
  row for row, and no row is in both.
\<close>

theorem upsert_result_partition:
  assumes "snd (snd (upsert_impl db m objs uq uf ex ret ig w)) = Inr (Some rs)"
  shows "\<exists>cs us. created rs = Inr cs \<and> updated rs = Inr us
     \<and> (\<forall>r \<in> set rs. (getattr_row r ''status_'' = Inr (PStr ''c''))
                       \<noteq> (getattr_row r ''status_'' = Inr (PStr ''u'')))
     \<and> mset cs + mset us = mset rs
     \<and> set cs \<union> set us = set rs
     \<and> set cs \<inter> set us = {}"
proof -
  let ?c = "\<lambda>r. getattr_row r ''status_'' = Inr (PStr ''c'')"
  let ?u = "\<lambda>r. getattr_row r ''status_'' = Inr (PStr ''u'')"
  have st: "?c r \<or> ?u r" if "r \<in> set rs" for r
  proof -
    from upsert_impl_rows[OF assms] that
    obtain rows where "fetch_rows (get_returning_sql ret m True) rows = Inr rs" by auto
    from fetch_rows_status[OF this that] show ?thesis .
  qed
  have one: "?c r \<noteq> ?u r" if "r \<in> set rs" for r
    using st[OF that] by auto
  have ex: "\<exists>v. getattr_row r ''status_'' = Inr v" if "r \<in> set rs" for r
    using st[OF that] by auto
  have c: "created rs = Inr (filter ?c rs)"
    unfolding created_def using ex by (rule rows_with_status_filter)
  have u: "updated rs = Inr (filter ?u rs)"
    unfolding updated_def using ex by (rule rows_with_status_filter)
  have m: "mset (filter ?c rs) + mset (filter ?u rs) = mset rs"
    using one by (rule mset_filter_two)
  have s: "set (filter ?c rs) \<union> set (filter ?u rs) = set rs"
    using st by auto
  have d: "set (filter ?c rs) \<inter> set (filter ?u rs) = {}"
    using one by auto
  from c u one m s d show ?thesis by blast
qed

theorem upsert_result_partition_witness:
  "snd (snd (upsert_impl two_rows account two_accounts [''email''] None None (RList [''email'']) False world0))
     = Inr (Some [[(''email'', PStr ''a''), (''status_'', PStr ''c'')],
                  [(''email'', PStr ''b''), (''status_'', PStr ''u'')]])
   \<and> created [[(''email'', PStr ''a''), (''status_'', PStr ''c'')],
              [(''email'', PStr ''b''), (''status_'', PStr ''u'')]]
       = Inr [[(''email'', PStr ''a''), (''status_'', PStr ''c'')]]
   \<and> updated [[(''email'', PStr ''a''), (''status_'', PStr ''c'')],
              [(''email'', PStr ''b''), (''status_'', PStr ''u'')]]
       = Inr [[(''email'', PStr ''b''), (''status_'', PStr ''u'')]]
   \<and> (\<exists>cs us. created [[(''email'', PStr ''a''), (''status_'', PStr ''c'')],
                        [(''email'', PStr ''b''), (''status_'', PStr ''u'')]] = Inr cs
        \<and> updated [[(''email'', PStr ''a''), (''status_'', PStr ''c'')],
                    [(''email'', PStr ''b''), (''status_'', PStr ''u'')]] = Inr us
        \<and> mset cs + mset us
            = mset [[(''email'', PStr ''a''), (''status_'', PStr ''c'')],
                    [(''email'', PStr ''b''), (''status_'', PStr ''u'')]]
        \<and> set cs \<inter> set us = {})"
proof -
  have h: "snd (snd (upsert_impl two_rows account two_accounts [''email''] None None (RList [''email'']) False world0))
     = Inr (Some [[(''email'', PStr ''a''), (''status_'', PStr ''c'')],
                  [(''email'', PStr ''b''), (''status_'', PStr ''u'')]])"
    by code_simp
  have c: "created [[(''email'', PStr ''a''), (''status_'', PStr ''c'')],
              [(''email'', PStr ''b''), (''status_'', PStr ''u'')]]
       = Inr [[(''email'', PStr ''a''), (''status_'', PStr ''c'')]]"
    by code_simp
  have u: "updated [[(''email'', PStr ''a''), (''status_'', PStr ''c'')],
              [(''email'', PStr ''b''), (''status_'', PStr ''u'')]]
       = Inr [[(''email'', PStr ''b''), (''status_'', PStr ''u'')]]"
    by code_simp
  from upsert_result_partition[OF h] h c u show ?thesis by blast
qed

section \<open>Compiled statements\<close>

subsection \<open>The VALUES groups\<close>

lemma map_const_replicate:
  "(\<And>x. x \<in> set xs \<Longrightarrow> f x = c) \<Longrightarrow> map f xs = replicate (length xs) c"
  by (induction xs) auto

lemma upsert_row_values:
  assumes "objs \<noteq> []"
  shows "fst (get_values_for_rows objs fs) =
     paren (join '', '' (map (\<lambda>f. ''%s::'' @ db_type f) fs))
     # replicate (length objs - 1) (paren (join '', '' (replicate (length fs) ''%s'')))"
proof -
  from assms have n: "[0..<length objs] = 0 # [1..<length objs]"
    by (simp add: upt_rec)
  have "map (\<lambda>i. paren (join '', '' (upsert_placeholders fs i))) [1..<length objs]
      = replicate (length [1..<length objs]) (paren (join '', '' (replicate (length fs) ''%s'')))"
    by (rule map_const_replicate) (simp add: upsert_placeholders_def)
  with n show ?thesis
    by (simp add: get_values_for_rows_def upsert_placeholders_def)
qed

lemma update_first_group:
  assumes "length row = length db_types" "db_types \<noteq> []"
  shows "update_placeholders db_types 0 row = ''%s'' # map (\<lambda>t. ''%s::'' @ t) (tl db_types)"
proof (rule nth_equalityI)
  show "length (update_placeholders db_types 0 row)
      = length (''%s'' # map (\<lambda>t. ''%s::'' @ t) (tl db_types))"
    using assms by (simp add: update_placeholders_def)
next
  fix i assume "i < length (update_placeholders db_types 0 row)"
  then have i: "i < length db_types" using assms by (simp add: update_placeholders_def)
  have "update_placeholders db_types 0 row ! i
      = (if i \<noteq> 0 then ''%s::'' @ db_types ! i else ''%s'')"
    using i assms unfolding update_placeholders_def by (simp del: upt_Suc)
  moreover have "(''%s'' # map (\<lambda>t. ''%s::'' @ t) (tl db_types)) ! i
      = (if i \<noteq> 0 then ''%s::'' @ db_types ! i else ''%s'')"
    using i by (cases i; cases db_types) simp_all
  ultimately show "update_placeholders db_types 0 row ! i
      = (''%s'' # map (\<lambda>t. ''%s::'' @ t) (tl db_types)) ! i"
    by simp
qed

lemma update_later_group:
  "0 < row_number \<Longrightarrow> update_placeholders db_types row_number row = replicate (length row) ''%s''"
  using map_const_replicate[of "[0..<length row]" _ "''%s''"]
  by (simp add: update_placeholders_def)

lemma enumerate_later_groups:
  assumes "\<And>row. row \<in> set rows \<Longrightarrow> length row = k" "0 < n"
  shows "map (\<lambda>(row_number, row). paren (join '', '' (update_placeholders db_types row_number row)))
           (enumerate n rows)
         = replicate (length rows) (paren (join '', '' (replicate k ''%s'')))"
  using assms
proof (induction rows arbitrary: n)
  case Nil
  then show ?case by simp
next
  case (Cons r rows)
  then show ?case by (simp add: update_later_group)
qed

lemma update_values_groups:
  assumes "rows \<noteq> []" "\<And>row. row \<in> set rows \<Longrightarrow> length row = length db_types" "db_types \<noteq> []"
  shows "update_values_sql db_types rows =
     join '', '' (paren (join '', '' (''%s'' # map (\<lambda>t. ''%s::'' @ t) (tl db_types)))
                  # replicate (length rows - 1) (paren (join '', '' (replicate (length db_types) ''%s''))))"
proof -
  from assms(1) obtain r rs where rows: "rows = r # rs" by (cases rows) auto
  have "map (\<lambda>(row_number, row). paren (join '', '' (update_placeholders db_types row_number row)))
           (enumerate (Suc 0) rs)
         = replicate (length rs) (paren (join '', '' (replicate (length db_types) ''%s'')))"
    by (rule enumerate_later_groups) (use assms(2) rows in auto)
  moreover have "update_placeholders db_types 0 r = ''%s'' # map (\<lambda>t. ''%s::'' @ t) (tl db_types)"
    by (rule update_first_group) (use assms rows in auto)
  ultimately show ?thesis
    by (simp add: update_values_sql_def rows)
qed

lemma length_value_fields: "length (value_fields pk ufs) = Suc (length ufs)"
  by (simp add: value_fields_def)

lemma get_upsert_sql_Inr:
  assumes "get_upsert_sql m objs uq ufs ret ig = Inr (sql, args)"
  shows "\<exists>unique_db_cols on_conflict.
      map_err (field_column m) uq = Inr unique_db_cols
    \<and> get_upsert_on_conflict m ufs ig = Inr on_conflict
    \<and> sql = ('' INSERT INTO '' @ db_table m @ '' (''
              @ join '', '' (map (\<lambda>f. quote (column f)) (upsert_all_fields m uq)) @ '')'')
            @ '' VALUES '' @ join '', '' (fst (get_values_for_rows objs (upsert_all_fields m uq)))
            @ '' ON CONFLICT ('' @ (join '', '' (map quote unique_db_cols) @ '') '' @ on_conflict
            @ '' '' @ get_returning_sql ret m True)
    \<and> args = snd (get_values_for_rows objs (upsert_all_fields m uq))"
  using assms
  by (auto simp: get_upsert_sql_def Let_def split: sum.splits prod.splits)

lemma get_update_sql_Some:
  assumes "get_update_sql m pk objs ufs ret ig = Inr (Some (sql, params))"
  shows "\<exists>row_values db_types value_cols set_sql ign.
      map_err (\<lambda>obj. map_err (value_of_field m obj) (value_fields pk ufs)) objs = Inr row_values
    \<and> row_values \<noteq> [] \<and> ufs \<noteq> []
    \<and> map_err (field_db_type m) (value_fields pk ufs) = Inr db_types
    \<and> map_err (field_column m) (value_fields pk ufs) = Inr value_cols
    \<and> get_update_fields_sql m ufs ''new_values'' ig = Inr (set_sql, ign)
    \<and> sql = (''UPDATE '' @ quote (db_table m) @ '' '' @ ''SET '' @ set_sql @ '' '')
            @ ''FROM (VALUES '' @ update_values_sql db_types row_values
            @ '') AS new_values ('' @ (join '', '' (map quote value_cols) @ '') ''
            @ ''WHERE '' @ quote (db_table m) @ ''.'' @ quote (column pk)
            @ '' = new_values.'' @ quote (column pk) @ '' ''
            @ (if ign \<noteq> [] then ''AND '' @ ign else [])
            @ '' '' @ get_returning_sql ret m False)
    \<and> params = prep_sql_args (concat row_values)"
  using assms
  by (auto simp: get_update_sql_def Let_def split: sum.splits prod.splits if_splits)

lemma update_rows_lengths:
  assumes "map_err (\<lambda>obj. map_err (g obj) vf) objs = Inr row_values" "row \<in> set row_values"
  shows "length row = length vf"
proof -
  from assms(1) have "list_all2 (\<lambda>obj r. map_err (g obj) vf = Inr r) objs row_values"
    by (simp add: map_err_Inr_iff)
  with assms(2) obtain obj where "map_err (g obj) vf = Inr row"
    by (auto simp: list_all2_conv_all_nth in_set_conv_nth)
  then show ?thesis by (simp add: map_err_Inr_iff list_all2_lengthD)
qed

text \<open>
  C1, as the code has it. In a compiled upsert over a non-empty batch the first VALUES group
  has one \<^verbatim>\<open>%s::type\<close> per inserted column and every later group only \<^verbatim>\<open>%s\<close>. In a
  compiled bulk update the first group has \<^verbatim>\<open>%s::type\<close> for every value field but the
  first: the leading primary-key placeholder is a bare \<^verbatim>\<open>%s\<close>; every later group has
  only \<^verbatim>\<open>%s\<close>.
\<close>

theorem values_group_casts:
  "(get_upsert_sql m objs uq ufs ret ig = Inr (sql, args) \<and> objs \<noteq> [] \<longrightarrow>
      (\<exists>pre post. sql = pre @ '' VALUES ''
          @ join '', ''
              (paren (join '', '' (map (\<lambda>f. ''%s::'' @ db_type f) (upsert_all_fields m uq)))
               # replicate (length objs - 1)
                   (paren (join '', '' (replicate (length (upsert_all_fields m uq)) ''%s''))))
          @ '' ON CONFLICT ('' @ post))
   \<and> (get_update_sql m pk objs ufs ret ig = Inr (Some (sql', params)) \<longrightarrow>
      (\<exists>db_types pre post.
          map_err (field_db_type m) (value_fields pk ufs) = Inr db_types
        \<and> sql' = pre @ ''FROM (VALUES ''
          @ join '', ''
              (paren (join '', '' (''%s'' # map (\<lambda>t. ''%s::'' @ t) (tl db_types)))
               # replicate (length objs - 1)
                   (paren (join '', '' (replicate (length db_types) ''%s''))))
          @ '') AS new_values ('' @ post))"
proof (intro conjI impI)
  assume a: "get_upsert_sql m objs uq ufs ret ig = Inr (sql, args) \<and> objs \<noteq> []"
  from get_upsert_sql_Inr[of m objs uq ufs ret ig sql args] a
  obtain unique_db_cols on_conflict where
    s: "sql = ('' INSERT INTO '' @ db_table m @ '' (''
              @ join '', '' (map (\<lambda>f. quote (column f)) (upsert_all_fields m uq)) @ '')'')
            @ '' VALUES '' @ join '', '' (fst (get_values_for_rows objs (upsert_all_fields m uq)))
            @ '' ON CONFLICT ('' @ (join '', '' (map quote unique_db_cols) @ '') '' @ on_conflict
            @ '' '' @ get_returning_sql ret m True)"
    by blast
  from a have "objs \<noteq> []" by simp
  note v = upsert_row_values[OF this, of "upsert_all_fields m uq"]
  show "\<exists>pre post. sql = pre @ '' VALUES ''
          @ join '', ''
              (paren (join '', '' (map (\<lambda>f. ''%s::'' @ db_type f) (upsert_all_fields m uq)))
               # replicate (length objs - 1)
                   (paren (join '', '' (replicate (length (upsert_all_fields m uq)) ''%s''))))
          @ '' ON CONFLICT ('' @ post"
    using s unfolding v by blast
next
  assume a: "get_update_sql m pk objs ufs ret ig = Inr (Some (sql', params))"
  from get_update_sql_Some[OF a] obtain row_values db_types value_cols set_sql ign where
    r: "map_err (\<lambda>obj. map_err (value_of_field m obj) (value_fields pk ufs)) objs = Inr row_values"
      "row_values \<noteq> []"
    and d: "map_err (field_db_type m) (value_fields pk ufs) = Inr db_types"
    and s: "sql' = (''UPDATE '' @ quote (db_table m) @ '' '' @ ''SET '' @ set_sql @ '' '')
            @ ''FROM (VALUES '' @ update_values_sql db_types row_values
            @ '') AS new_values ('' @ (join '', '' (map quote value_cols) @ '') ''
            @ ''WHERE '' @ quote (db_table m) @ ''.'' @ quote (column pk)
            @ '' = new_values.'' @ quote (column pk) @ '' ''
            @ (if ign \<noteq> [] then ''AND '' @ ign else [])
            @ '' '' @ get_returning_sql ret m False)"
    by blast
  from d have ld: "length db_types = length (value_fields pk ufs)"
    by (simp add: map_err_length)
  then have ne: "db_types \<noteq> []" by (auto simp: length_value_fields)
  have lr: "length row = length db_types" if "row \<in> set row_values" for row
    using update_rows_lengths[OF r(1) that] ld by simp
  have n: "length row_values = length objs" using r(1) by (rule map_err_length)
  have v: "update_values_sql db_types row_values =
     join '', '' (paren (join '', '' (''%s'' # map (\<lambda>t. ''%s::'' @ t) (tl db_types)))
                  # replicate (length objs - 1) (paren (join '', '' (replicate (length db_types) ''%s''))))"
    using update_values_groups[OF r(2) lr ne] n by simp
  show "\<exists>db_types pre post.
          map_err (field_db_type m) (value_fields pk ufs) = Inr db_types
        \<and> sql' = pre @ ''FROM (VALUES ''
          @ join '', ''
              (paren (join '', '' (''%s'' # map (\<lambda>t. ''%s::'' @ t) (tl db_types)))
               # replicate (length objs - 1)
                   (paren (join '', '' (replicate (length db_types) ''%s''))))
          @ '') AS new_values ('' @ post"
    using d s unfolding v by blast
qed

theorem values_group_casts_witness:
  "(\<exists>sql args pre post.
      get_upsert_sql account two_accounts [''email''] [UpdateField ''count'' None] (RBool False) False
        = Inr (sql, args)
    \<and> sql = pre @ '' VALUES ''
          @ ''(%s::varchar, %s::integer, %s::timestamp, %s::timestamp), (%s, %s, %s, %s)''
          @ '' ON CONFLICT ('' @ post)
   \<and> (\<exists>sql params pre post.
      get_update_sql account id_field two_accounts [UpdateField ''count'' None] (RBool False) False
        = Inr (Some (sql, params))
    \<and> sql = pre @ ''FROM (VALUES '' @ ''(%s, %s::integer), (%s, %s)'' @ '') AS new_values ('' @ post)"
proof -
  have "case get_upsert_sql account two_accounts [''email''] [UpdateField ''count'' None]
          (RBool False) False of Inl e \<Rightarrow> False | Inr p \<Rightarrow> True"
    by code_simp
  then obtain sql args where
    h1: "get_upsert_sql account two_accounts [''email''] [UpdateField ''count'' None] (RBool False) False
        = Inr (sql, args)"
    by (auto split: sum.splits)
  have "case get_update_sql account id_field two_accounts [UpdateField ''count'' None]
          (RBool False) False of Inr (Some p) \<Rightarrow> True | _ \<Rightarrow> False"
    by code_simp
  then obtain sql' params where
    h2: "get_update_sql account id_field two_accounts [UpdateField ''count'' None] (RBool False) False
        = Inr (Some (sql', params))"
    by (auto split: sum.splits option.splits)
  have n: "two_accounts \<noteq> []" "length two_accounts = 2" by (simp_all add: two_accounts_def)
  have f: "map db_type (upsert_all_fields account [''email''])
      = [''varchar'', ''integer'', ''timestamp'', ''timestamp'']"
    by code_simp
  have d: "map_err (field_db_type account) (value_fields id_field [UpdateField ''count'' None])
      = Inr [''integer'', ''integer'']"
    by code_simp
  have f': "map (\<lambda>f. ''%s::'' @ db_type f) (upsert_all_fields account [''email''])
      = map (\<lambda>t. ''%s::'' @ t) (map db_type (upsert_all_fields account [''email'']))"
    by simp
  have l: "length (upsert_all_fields account [''email'']) = 4"
    using arg_cong[OF f, of length] by simp
  from values_group_casts[where m = account and objs = two_accounts and uq = "[''email'']"
      and ufs = "[UpdateField ''count'' None]" and ret = "RBool False" and ig = False
      and sql = sql and args = args and pk = id_field and sql' = sql' and params = params] h1 h2 n
  show ?thesis
    unfolding f' f l
    by (simp add: d paren_def numeral_2_eq_2 numeral_Bit0 del: replicate.simps)
       (simp add: eval_nat_numeral)
qed

text \<open>
  The claim as stated fails for the bulk update: the primary-key placeholder of the first
  group carries no cast (\<^verbatim>\<open>... if not row_number and i else "%s"\<close>).
\<close>

theorem update_first_group_pk_untyped:
  "get_update_sql account id_field [account_obj (PInt 1) (PStr ''a'') (PInt 7)]
     [UpdateField ''count'' None] (RBool False) False
   = Inr (Some (''UPDATE '' @ quote ''account'' @ '' SET '' @ quote ''count'' @ '' = new_values.''
                @ quote ''count'' @ '' FROM (VALUES (%s, %s::integer)) AS new_values (''
                @ quote ''id'' @ '', '' @ quote ''count'' @ '') WHERE '' @ quote ''account'' @ ''.''
                @ quote ''id'' @ '' = new_values.'' @ quote ''id'' @ ''  '',
                [PInt 1, PInt 7]))
   \<and> db_type id_field = ''integer''
   \<and> update_placeholders [''integer'', ''integer''] 0 [PInt 1, PInt 7] = [''%s'', ''%s::integer'']
   \<and> update_placeholders [''integer'', ''integer''] 0 [PInt 1, PInt 7]
       \<noteq> map (\<lambda>t. ''%s::'' @ t) [''integer'', ''integer'']"
  by code_simp

subsection \<open>The conflict arm\<close>

lemma set_item_form: "set_item d col = Inr item \<Longrightarrow> \<exists>v. item = quote col @ '' = '' @ v"
  by (auto simp: set_item_def split: sum.splits)

lemma set_items_form:
  "map_err (set_item d) cols = Inr items \<Longrightarrow>
     \<exists>rhs. length rhs = length cols \<and> items = map2 (\<lambda>c v. quote c @ '' = '' @ v) cols rhs"
proof (induction cols arbitrary: items)
  case Nil
  then have "length ([]::string list) = length ([]::string list)
      \<and> items = map2 (\<lambda>c v. quote c @ '' = '' @ v) [] []" by simp
  then show ?case by blast
next
  case (Cons col cols)
  from Cons.prems obtain item items' where
    i: "set_item d col = Inr item" "map_err (set_item d) cols = Inr items'" "items = item # items'"
    by (auto split: sum.splits)
  from Cons.IH[OF i(2)] obtain rhs where r: "length rhs = length cols"
      "items' = map2 (\<lambda>c v. quote c @ '' = '' @ v) cols rhs" by blast
  from set_item_form[OF i(1)] obtain v where v: "item = quote col @ '' = '' @ v" by blast
  from r v i(3) have "length (v # rhs) = length (col # cols)
      \<and> items = map2 (\<lambda>c v. quote c @ '' = '' @ v) (col # cols) (v # rhs)" by simp
  then show ?case by blast
qed

lemma do_update_not_nothing: "''DO UPDATE SET '' @ x \<noteq> ''DO NOTHING''"
  by simp

lemma get_update_fields_sql_Inr:
  assumes "get_update_fields_sql m ufs alias ig = Inr (set_sql, ign)"
  shows "\<exists>cols d items.
      map_err (field_column m) (map uf_name ufs) = Inr cols
    \<and> store_expressions m (update_expressions ufs) (alias_expressions alias cols) = Inr d
    \<and> map_err (set_item d) cols = Inr items
    \<and> set_sql = join '', '' items
    \<and> ign = (if ig \<and> cols \<noteq> [] then ignore_unchanged_sql_of m cols d else [])"
proof (cases "map_err (field_column m) (map uf_name ufs)")
  case (Inl e)
  with assms show ?thesis by (simp add: get_update_fields_sql_def)
next
  case (Inr cols)
  note c = this
  show ?thesis
  proof (cases "store_expressions m (update_expressions ufs) (alias_expressions alias cols)")
    case (Inl e)
    with assms c show ?thesis by (simp add: get_update_fields_sql_def)
  next
    case (Inr d)
    note d = this
    show ?thesis
    proof (cases "map_err (set_item d) cols")
      case (Inl e)
      with assms c d show ?thesis by (simp add: get_update_fields_sql_def)
    next
      case (Inr items)
      with assms c d have "set_sql = join '', '' items"
        "ign = (if ig \<and> cols \<noteq> [] then ignore_unchanged_sql_of m cols d else [])"
        by (simp_all add: get_update_fields_sql_def)
      with c d Inr show ?thesis by blast
    qed
  qed
qed

lemma get_update_fields_sql_set:
  assumes "get_update_fields_sql m ufs alias ig = Inr (set_sql, ign)"
    and "map_err (field_column m) (map uf_name ufs) = Inr cols"
  shows "\<exists>rhs. length rhs = length cols
     \<and> set_sql = join '', '' (map2 (\<lambda>c v. quote c @ '' = '' @ v) cols rhs)"
proof -
  from get_update_fields_sql_Inr[OF assms(1)] assms(2)
  obtain d items where i: "map_err (set_item d) cols = Inr items" "set_sql = join '', '' items"
    by auto
  from set_items_form[OF i(1)] i(2) show ?thesis by blast
qed

lemma get_upsert_on_conflict_Inr:
  assumes "get_upsert_on_conflict m ufs ig = Inr arm"
  shows "(ufs = [] \<and> arm = ''DO NOTHING'')
     \<or> (ufs \<noteq> [] \<and> arm \<noteq> ''DO NOTHING'' \<and>
         (\<exists>cols rhs wh. map_err (field_column m) (map uf_name ufs) = Inr cols
            \<and> length rhs = length cols
            \<and> arm = ''DO UPDATE SET '' @ join '', '' (map2 (\<lambda>c v. quote c @ '' = '' @ v) cols rhs)
                    @ '' '' @ wh))"
proof (cases "map_err (field_column m) (map uf_name ufs)")
  case (Inl e)
  with assms show ?thesis by (simp add: get_upsert_on_conflict_def)
next
  case (Inr cols)
  note c = this
  then have l: "length cols = length ufs" by (simp add: map_err_length)
  show ?thesis
  proof (cases "get_update_fields_sql m ufs ''EXCLUDED'' ig")
    case (Inl e)
    with assms c show ?thesis by (simp add: get_upsert_on_conflict_def)
  next
    case (Inr p)
    obtain set_sql ign where p: "p = (set_sql, ign)" by (cases p)
    from get_update_fields_sql_set[OF Inr[unfolded p] c] obtain rhs where
      r: "length rhs = length cols"
        "set_sql = join '', '' (map2 (\<lambda>c v. quote c @ '' = '' @ v) cols rhs)"
      by blast
    show ?thesis
    proof (cases "ufs = []")
      case True
      with l have "cols = []" by simp
      with assms c Inr p have "arm = ''DO NOTHING''"
        by (simp add: get_upsert_on_conflict_def)
      with True show ?thesis by blast
    next
      case False
      with l have "cols \<noteq> []" by auto
      with assms c Inr p have a: "arm = ''DO UPDATE SET '' @ set_sql @ '' ''
          @ (if ign \<noteq> [] then ''WHERE '' @ ign else [])"
        by (simp add: get_upsert_on_conflict_def)
      then have "arm \<noteq> ''DO NOTHING''" by (simp only: do_update_not_nothing not_False_eq_True)
      with a r c False show ?thesis by blast
    qed
  qed
qed

text \<open>
  C5. In every compiled upsert statement the conflict arm, which stands between the
  conflict target and the RETURNING clause, is \<^verbatim>\<open>DO NOTHING\<close> exactly when the update
  fields are empty; otherwise it is \<^verbatim>\<open>DO UPDATE SET\<close> followed by one assignment per update
  field, in order, each to the quoted column of its field, and the optional WHERE.
\<close>

theorem conflict_arm:
  assumes "get_upsert_sql m objs uq ufs ret ig = Inr (sql, args)"
  shows "\<exists>pre arm. sql = pre @ '') '' @ arm @ '' '' @ get_returning_sql ret m True
     \<and> ((ufs = [] \<and> arm = ''DO NOTHING'')
        \<or> (ufs \<noteq> [] \<and> arm \<noteq> ''DO NOTHING'' \<and>
            (\<exists>cols rhs wh. map_err (field_column m) (map uf_name ufs) = Inr cols
               \<and> length rhs = length cols
               \<and> arm = ''DO UPDATE SET '' @ join '', '' (map2 (\<lambda>c v. quote c @ '' = '' @ v) cols rhs)
                       @ '' '' @ wh)))"
proof -
  from get_upsert_sql_Inr[OF assms] obtain unique_db_cols on_conflict where
    o: "get_upsert_on_conflict m ufs ig = Inr on_conflict"
    and s: "sql = ('' INSERT INTO '' @ db_table m @ '' (''
              @ join '', '' (map (\<lambda>f. quote (column f)) (upsert_all_fields m uq)) @ '')''
            @ '' VALUES '' @ join '', '' (fst (get_values_for_rows objs (upsert_all_fields m uq)))
            @ '' ON CONFLICT ('' @ join '', '' (map quote unique_db_cols)) @ '') '' @ on_conflict
            @ '' '' @ get_returning_sql ret m True"
    by auto
  from s get_upsert_on_conflict_Inr[OF o] show ?thesis by blast
qed

theorem conflict_arm_witness:
  "(\<exists>sql args pre.
      get_upsert_sql account two_accounts [''email''] [] (RBool False) False = Inr (sql, args)
    \<and> sql = pre @ '') '' @ ''DO NOTHING'' @ '' '' @ get_returning_sql (RBool False) account True)
   \<and> (\<exists>sql args pre v wh.
      get_upsert_sql account two_accounts [''email''] [UpdateField ''count'' None] (RBool False) False
        = Inr (sql, args)
    \<and> sql = pre @ '') '' @ (''DO UPDATE SET '' @ quote ''count'' @ '' = '' @ v @ '' '' @ wh)
            @ '' '' @ get_returning_sql (RBool False) account True)"
proof -
  have "case get_upsert_sql account two_accounts [''email''] [] (RBool False) False
          of Inl e \<Rightarrow> False | Inr p \<Rightarrow> True"
    by code_simp
  then obtain sql args where
    h1: "get_upsert_sql account two_accounts [''email''] [] (RBool False) False = Inr (sql, args)"
    by (auto split: sum.splits)
  have "case get_upsert_sql account two_accounts [''email''] [UpdateField ''count'' None]
          (RBool False) False of Inl e \<Rightarrow> False | Inr p \<Rightarrow> True"
    by code_simp
  then obtain sql' args' where
    h2: "get_upsert_sql account two_accounts [''email''] [UpdateField ''count'' None] (RBool False) False
        = Inr (sql', args')"
    by (auto split: sum.splits)
  have c: "map_err (field_column account) (map uf_name [UpdateField ''count'' None]) = Inr [''count'']"
    by code_simp
  from conflict_arm[OF h1] h1 have 1: "\<exists>sql args pre.
      get_upsert_sql account two_accounts [''email''] [] (RBool False) False = Inr (sql, args)
    \<and> sql = pre @ '') '' @ ''DO NOTHING'' @ '' '' @ get_returning_sql (RBool False) account True"
    by auto
  have ne: "[UpdateField ''count'' None] \<noteq> []" by simp
  from conflict_arm[OF h2] ne obtain pre arm cols rhs wh where
    s: "sql' = pre @ '') '' @ arm @ '' '' @ get_returning_sql (RBool False) account True"
    and k: "map_err (field_column account) (map uf_name [UpdateField ''count'' None]) = Inr cols"
    and r: "length rhs = length cols"
    and a: "arm = ''DO UPDATE SET '' @ join '', '' (map2 (\<lambda>c v. quote c @ '' = '' @ v) cols rhs)
                    @ '' '' @ wh"
    by blast
  from k c have cols: "cols = [''count'']" by simp
  with r obtain v where "rhs = [v]" by (cases rhs) auto
  with a cols have "arm = ''DO UPDATE SET '' @ quote ''count'' @ '' = '' @ v @ '' '' @ wh"
    by simp
  with s have "sql' = pre @ '') '' @ (''DO UPDATE SET '' @ quote ''count'' @ '' = '' @ v @ '' '' @ wh)
            @ '' '' @ get_returning_sql (RBool False) account True"
    by simp
  with h2 1 show ?thesis by blast
qed

section \<open>Placeholders and arguments\<close>

lemma percent_free_Nil: "percent_free []"
  by (simp add: percent_free_def)

lemma percent_free_Cons: "percent_free (c # s) \<longleftrightarrow> c \<noteq> CHR ''%'' \<and> percent_free s"
  by (auto simp: percent_free_def)

lemma percent_free_append: "percent_free (a @ b) \<longleftrightarrow> percent_free a \<and> percent_free b"
  by (auto simp: percent_free_def)

lemma percent_free_quote: "percent_free (quote s) \<longleftrightarrow> percent_free s"
  by (auto simp: percent_free_def quote_def split: if_splits)

lemma percent_free_join:
  "percent_free sep \<Longrightarrow> (\<And>p. p \<in> set ps \<Longrightarrow> percent_free p) \<Longrightarrow> percent_free (join sep ps)"
  by (induction sep ps rule: join.induct) (simp_all add: percent_free_Nil percent_free_append)

lemma count_skip: "c \<noteq> CHR ''%'' \<Longrightarrow> count_placeholders (c # s) = count_placeholders s"
  by (cases s) simp_all

lemma count_percent_free_prefix:
  "percent_free a \<Longrightarrow> count_placeholders (a @ b) = count_placeholders b"
  by (induction a) (simp_all add: percent_free_Cons count_skip)

lemma count_percent_free: "percent_free a \<Longrightarrow> count_placeholders a = 0"
  using count_percent_free_prefix[of a "[]"] by simp

lemma separable_percent_free: "percent_free a \<Longrightarrow> separable a"
  by (simp add: separable_def count_percent_free_prefix count_percent_free)

lemma separable_placeholder: "separable ''%s''" "count_placeholders ''%s'' = 1"
  by (simp_all add: separable_def)

lemma separable_append:
  assumes "separable a" "separable b"
  shows "separable (a @ b)"
    and "count_placeholders (a @ b) = count_placeholders a + count_placeholders b"
proof -
  from assms(1) show "count_placeholders (a @ b) = count_placeholders a + count_placeholders b"
    by (simp add: separable_def)
  from assms show "separable (a @ b)"
    by (simp add: separable_def)
qed

lemma separable_join:
  assumes "separable sep" "count_placeholders sep = 0" "\<And>p. p \<in> set ps \<Longrightarrow> separable p"
  shows "separable (join sep ps) \<and> count_placeholders (join sep ps) = sum_list (map count_placeholders ps)"
  using assms
proof (induction sep ps rule: join.induct)
  case (1 sep)
  then show ?case by (simp add: separable_def)
next
  case (2 sep p)
  then show ?case by simp
next
  case (3 sep p q ps)
  then have ih: "separable (join sep (q # ps))"
    "count_placeholders (join sep (q # ps)) = sum_list (map count_placeholders (q # ps))"
    by simp_all
  from 3 have p: "separable p" by simp
  from separable_append[OF 3(2) ih(1)] 3(3) ih(2)
  have s: "separable (sep @ join sep (q # ps))"
    "count_placeholders (sep @ join sep (q # ps)) = sum_list (map count_placeholders (q # ps))"
    by simp_all
  from separable_append[OF p s(1)] s(2) show ?case by simp
qed

lemma separable_paren:
  "separable s \<Longrightarrow> separable (paren s) \<and> count_placeholders (paren s) = count_placeholders s"
proof -
  assume s: "separable s"
  have l: "separable ''(''" "count_placeholders ''('' = 0" "separable '')''" "count_placeholders '')'' = 0"
    by (simp_all add: separable_def count_skip)
  from separable_append[OF s l(3)] l(4)
  have 1: "separable (s @ '')'')" "count_placeholders (s @ '')'') = count_placeholders s" by simp_all
  from separable_append[OF l(1) 1(1)] l(2) 1(2) show ?thesis by (simp add: paren_def)
qed

lemma typed_placeholder:
  assumes "percent_free t"
  shows "separable (''%s::'' @ t) \<and> count_placeholders (''%s::'' @ t) = 1"
proof -
  from assms have p: "percent_free ('':: '' @ t)" "percent_free (''::'' @ t)"
    by (simp_all add: percent_free_append percent_free_Cons percent_free_Nil)
  have "separable (''::'' @ t)" using p(2) by (rule separable_percent_free)
  from separable_append[OF separable_placeholder(1) this] count_percent_free[OF p(2)]
  show ?thesis by simp
qed

lemma group_count:
  assumes "\<And>p. p \<in> set ps \<Longrightarrow> separable p \<and> count_placeholders p = 1"
  shows "separable (paren (join '', '' ps)) \<and> count_placeholders (paren (join '', '' ps)) = length ps"
proof -
  have sep: "percent_free '', ''" by (simp add: percent_free_Cons percent_free_Nil)
  have "map count_placeholders ps = replicate (length ps) 1"
    by (rule map_const_replicate) (simp add: assms)
  then have s: "sum_list (map count_placeholders ps) = length ps"
    by (simp add: sum_list_replicate)
  from separable_join[OF separable_percent_free[OF sep] count_percent_free[OF sep], of ps] assms s
  have "separable (join '', '' ps)" "count_placeholders (join '', '' ps) = length ps" by simp_all
  with separable_paren[of "join '', '' ps"] show ?thesis by simp
qed

lemma groups_count:
  assumes "\<And>g. g \<in> set gs \<Longrightarrow> separable g"
  shows "separable (join '', '' gs)
     \<and> count_placeholders (join '', '' gs) = sum_list (map count_placeholders gs)"
proof -
  have sep: "percent_free '', ''" by (simp add: percent_free_Cons percent_free_Nil)
  from separable_join[OF separable_percent_free[OF sep] count_percent_free[OF sep], of gs] assms
  show ?thesis by simp
qed

lemma upsert_group_count:
  assumes "\<And>f. f \<in> set fs \<Longrightarrow> percent_free (db_type f)"
  shows "separable (paren (join '', '' (upsert_placeholders fs i)))
     \<and> count_placeholders (paren (join '', '' (upsert_placeholders fs i))) = length fs"
proof -
  have "separable p \<and> count_placeholders p = 1" if "p \<in> set (upsert_placeholders fs i)" for p
    using that assms typed_placeholder separable_placeholder
    by (auto simp: upsert_placeholders_def split: if_splits)
  from group_count[of "upsert_placeholders fs i", OF this] show ?thesis
    by (simp add: upsert_placeholders_def)
qed

lemma upsert_values_count:
  assumes "\<And>f. f \<in> set fs \<Longrightarrow> percent_free (db_type f)"
  shows "separable (join '', '' (fst (get_values_for_rows objs fs)))
     \<and> count_placeholders (join '', '' (fst (get_values_for_rows objs fs)))
         = length (snd (get_values_for_rows objs fs))"
proof -
  let ?gs = "fst (get_values_for_rows objs fs)"
  have g: "separable g \<and> count_placeholders g = length fs" if "g \<in> set ?gs" for g
    using that upsert_group_count[OF assms] by (auto simp: get_values_for_rows_def)
  then have "map count_placeholders ?gs = replicate (length ?gs) (length fs)"
    by (intro map_const_replicate) simp
  then have "sum_list (map count_placeholders ?gs) = length objs * length fs"
    by (simp add: sum_list_replicate get_values_for_rows_def)
  moreover have "length (snd (get_values_for_rows objs fs)) = length objs * length fs"
    by (induction objs) (simp_all add: get_values_for_rows_def get_values_for_row_def)
  ultimately show ?thesis using groups_count[of ?gs] g by simp
qed

lemma update_group_count:
  assumes "\<And>t. t \<in> set db_types \<Longrightarrow> percent_free t" "length row \<le> length db_types"
  shows "separable (paren (join '', '' (update_placeholders db_types rn row)))
     \<and> count_placeholders (paren (join '', '' (update_placeholders db_types rn row))) = length row"
proof -
  have "separable p \<and> count_placeholders p = 1" if "p \<in> set (update_placeholders db_types rn row)" for p
  proof -
    from that have "p \<in> (\<lambda>i. if rn = 0 \<and> i \<noteq> 0 then ''%s::'' @ db_types ! i else ''%s'')
        ` {0..<length row}"
      by (simp add: update_placeholders_def)
    then obtain i where i: "i < length row"
        "p = (if rn = 0 \<and> i \<noteq> 0 then ''%s::'' @ db_types ! i else ''%s'')"
      by (elim imageE) simp
    with assms have "percent_free (db_types ! i)" by simp
    with i typed_placeholder separable_placeholder show ?thesis by auto
  qed
  from group_count[of "update_placeholders db_types rn row", OF this] show ?thesis
    by (simp add: update_placeholders_def)
qed

lemma update_values_count:
  assumes "\<And>t. t \<in> set db_types \<Longrightarrow> percent_free t"
    and "\<And>row. row \<in> set rows \<Longrightarrow> length row \<le> length db_types"
  shows "separable (update_values_sql db_types rows)
     \<and> count_placeholders (update_values_sql db_types rows) = length (concat rows)"
proof -
  let ?g = "\<lambda>(row_number, row). paren (join '', '' (update_placeholders db_types row_number row))"
  let ?gs = "map ?g (enumerate 0 rows)"
  have g: "separable (?g x) \<and> count_placeholders (?g x) = length (snd x)"
    if "x \<in> set (enumerate 0 rows)" for x
  proof -
    obtain rn row where x: "x = (rn, row)" by (cases x)
    with that have "row \<in> set rows" by (auto simp: in_set_enumerate_eq)
    with update_group_count[where db_types = db_types and row = row and rn = rn] assms x
    show ?thesis by simp
  qed
  have "map count_placeholders ?gs = map (\<lambda>x. length (snd x)) (enumerate 0 rows)"
    using g by simp
  also have "\<dots> = map length rows"
    by (simp flip: map_map[unfolded comp_def])
  finally have "sum_list (map count_placeholders ?gs) = length (concat rows)"
    by (simp add: length_concat)
  moreover have "separable x" if "x \<in> set ?gs" for x using that g by auto
  ultimately show ?thesis using groups_count[of ?gs] by (simp add: update_values_sql_def)
qed

lemmas percent_free_simps =
  percent_free_Nil percent_free_Cons percent_free_append percent_free_quote

lemma percent_free_literal:
  "percent_free ''.''" "percent_free '', ''" "percent_free '' = ''" "percent_free ''EXCLUDED''"
  "percent_free ''new_values''" "percent_free status_sql"
  by (simp_all add: percent_free_def status_sql_def)

lemma percent_free_model_field:
  "percent_free_model m \<Longrightarrow> f \<in> set (meta_fields m) \<Longrightarrow>
     percent_free (column f) \<and> percent_free (db_type f)"
  by (auto simp: percent_free_model_def percent_free_field_def list_all_iff)

lemma field_column_percent_free:
  "percent_free_model m \<Longrightarrow> field_column m n = Inr c \<Longrightarrow> percent_free c"
  by (auto simp: field_column_def get_field_def split: option.splits sum.splits
      dest!: fields_dict_SomeD dest: percent_free_model_field)

lemma field_db_type_percent_free:
  "percent_free_model m \<Longrightarrow> field_db_type m n = Inr t \<Longrightarrow> percent_free t"
  by (auto simp: field_db_type_def get_field_def split: option.splits sum.splits
      dest!: fields_dict_SomeD dest: percent_free_model_field)

lemma map_err_set:
  assumes "map_err g xs = Inr ys" "y \<in> set ys"
  shows "\<exists>x \<in> set xs. g x = Inr y"
proof -
  from assms(1) have l: "list_all2 (\<lambda>x y. g x = Inr y) xs ys" by (simp add: map_err_Inr_iff)
  from assms(2) obtain i where "i < length ys" "ys ! i = y" by (auto simp: in_set_conv_nth)
  with l have "g (xs ! i) = Inr y" "i < length xs"
    by (auto simp: list_all2_conv_all_nth)
  then show ?thesis by (metis nth_mem)
qed

lemma columns_percent_free:
  assumes "percent_free_model m" "map_err (field_column m) ns = Inr cols" "c \<in> set cols"
  shows "percent_free c"
  using map_err_set[OF assms(2,3)] field_column_percent_free[OF assms(1)] by blast

lemma db_types_percent_free:
  assumes "percent_free_model m" "map_err (field_db_type m) ns = Inr ts" "t \<in> set ts"
  shows "percent_free t"
  using map_err_set[OF assms(2,3)] field_db_type_percent_free[OF assms(1)] by blast

lemma alist_update_set: "x \<in> set (AList.update k v d) \<Longrightarrow> x = (k, v) \<or> x \<in> set d"
  by (induction d) (auto split: if_splits)


lemma clean_dict_update: "clean_dict d \<Longrightarrow> percent_free v \<Longrightarrow> clean_dict (AList.update k v d)"
  by (auto simp: clean_dict_def list_all_iff dest: alist_update_set)

lemma clean_dict_fold_alias:
  "clean_dict d \<Longrightarrow> percent_free alias \<Longrightarrow> (\<And>c. c \<in> set cols \<Longrightarrow> percent_free c) \<Longrightarrow>
     clean_dict (fold (\<lambda>col d. AList.update col (alias @ ''.'' @ quote col) d) cols d)"
proof (induction cols arbitrary: d)
  case Nil
  then show ?case by simp
next
  case (Cons c cols)
  then have "clean_dict (AList.update c (alias @ ''.'' @ quote c) d)"
    by (intro clean_dict_update)
       (simp_all add: percent_free_simps)
  with Cons show ?case by simp
qed

lemma clean_alias_expressions:
  "percent_free alias \<Longrightarrow> (\<And>c. c \<in> set cols \<Longrightarrow> percent_free c) \<Longrightarrow>
     clean_dict (alias_expressions alias cols)"
  unfolding alias_expressions_def
  by (rule clean_dict_fold_alias) (simp_all add: clean_dict_def)

lemma clean_dict_fold_expressions:
  "clean_dict d \<Longrightarrow> percent_free_update_fields us \<Longrightarrow>
     clean_dict (fold (\<lambda>u d. case expression u of None \<Rightarrow> d
                                | Some e \<Rightarrow> AList.update (uf_name u) e d) us d)"
proof (induction us arbitrary: d)
  case Nil
  then show ?case by simp
next
  case (Cons u us)
  then have "clean_dict (case expression u of None \<Rightarrow> d | Some e \<Rightarrow> AList.update (uf_name u) e d)"
    by (auto simp: percent_free_update_fields_def intro: clean_dict_update split: option.splits)
  with Cons show ?case by (simp add: percent_free_update_fields_def)
qed

lemma clean_update_expressions:
  "percent_free_update_fields us \<Longrightarrow> clean_dict (update_expressions us)"
  unfolding update_expressions_def
  by (rule clean_dict_fold_expressions) (simp_all add: clean_dict_def)

lemma clean_store_expressions:
  "store_expressions m exprs d = Inr d' \<Longrightarrow> clean_dict exprs \<Longrightarrow> clean_dict d \<Longrightarrow> clean_dict d'"
proof (induction m exprs d rule: store_expressions.induct)
  case (1 m d)
  then show ?case by simp
next
  case (2 m field_name val rest d)
  from 2(2) obtain c where c: "field_column m field_name = Inr c"
    "store_expressions m rest (AList.update c val d) = Inr d'"
    by (auto split: sum.splits)
  from 2(3) have v: "percent_free val" "clean_dict rest" by (simp_all add: clean_dict_def)
  from 2(1)[OF c v(2) clean_dict_update[OF 2(4) v(1)]] show ?case .
qed

lemma set_item_percent_free:
  assumes "set_item d col = Inr item" "clean_dict d" "percent_free col"
  shows "percent_free item"
proof -
  from assms(1) obtain v where v: "map_of d col = Some v" "item = quote col @ '' = '' @ v"
    by (auto simp: set_item_def dict_get_def split: sum.splits option.splits)
  from v(1) have "(col, v) \<in> set d" by (rule map_of_SomeD)
  with assms(2) have "percent_free v" by (auto simp: clean_dict_def list_all_iff)
  with v(2) assms(3) show ?thesis
    by (simp add: percent_free_simps)
qed

lemma get_update_fields_sql_percent_free:
  assumes g: "get_update_fields_sql m ufs alias ig = Inr (set_sql, ign)"
    and m: "percent_free_model m" and u: "percent_free_update_fields ufs" and a: "percent_free alias"
  shows "percent_free set_sql \<and> percent_free ign"
proof -
  from get_update_fields_sql_Inr[OF g] obtain cols d items where
    c: "map_err (field_column m) (map uf_name ufs) = Inr cols"
    and d: "store_expressions m (update_expressions ufs) (alias_expressions alias cols) = Inr d"
    and i: "map_err (set_item d) cols = Inr items"
    and s: "set_sql = join '', '' items"
    and n: "ign = (if ig \<and> cols \<noteq> [] then ignore_unchanged_sql_of m cols d else [])"
    by blast
  have pc: "percent_free c" if "c \<in> set cols" for c
    using columns_percent_free[OF m c that] .
  have cd: "clean_dict d"
    using clean_store_expressions[OF d clean_update_expressions[OF u] clean_alias_expressions[OF a pc]]
    by simp
  have pi: "percent_free item" if "item \<in> set items" for item
  proof -
    from map_err_set[OF i that] obtain col where "col \<in> set cols" "set_item d col = Inr item" by blast
    with set_item_percent_free[OF _ cd] pc show ?thesis by blast
  qed
  have 1: "percent_free set_sql"
    unfolding s by (rule percent_free_join) (simp_all add: percent_free_simps pi)
  from m have t: "percent_free (db_table m)" by (simp add: percent_free_model_def)
  have "percent_free (join '', '' (map (\<lambda>col. quote (db_table m) @ ''.'' @ quote col) cols))"
    by (rule percent_free_join)
       (auto simp: percent_free_simps t pc)
  moreover have "percent_free (join '', '' (map snd d))"
    by (rule percent_free_join) (use cd in \<open>auto simp: percent_free_simps clean_dict_def list_all_iff\<close>)
  ultimately have "percent_free (ignore_unchanged_sql_of m cols d)"
    by (simp add: ignore_unchanged_sql_of_def percent_free_simps)
  with n have 2: "percent_free ign" by (simp add: percent_free_Nil)
  from 1 2 show ?thesis by simp
qed

lemma get_returning_sql_percent_free:
  assumes "percent_free_model m" "percent_free_returning ret"
  shows "percent_free (get_returning_sql ret m st)"
proof -
  from assms(1) have t: "percent_free (db_table m)" by (simp add: percent_free_model_def)
  have c: "percent_free c" if "c \<in> set (returning_columns m ret)" for c
  proof (cases ret)
    case (RBool b)
    with that obtain f where "f \<in> set (model_fields m)" "c = column f"
      by (cases b) auto
    with percent_free_model_field[OF assms(1), of f] show ?thesis
      by (simp add: model_fields_def)
  next
    case (RList cs)
    with that assms(2) show ?thesis by (simp add: list_all_iff)
  qed
  have "percent_free (join '', '' (map (\<lambda>c. quote (db_table m) @ ''.'' @ quote c) (returning_columns m ret)))"
    by (rule percent_free_join)
       (auto simp: percent_free_simps t c)
  then show ?thesis
    by (simp add: get_returning_sql_def Let_def percent_free_simps percent_free_literal)
qed

lemma get_upsert_on_conflict_percent_free:
  assumes o: "get_upsert_on_conflict m ufs ig = Inr arm"
    and m: "percent_free_model m" and u: "percent_free_update_fields ufs"
  shows "percent_free arm"
proof -
  from o obtain set_sql ign where
    g: "get_update_fields_sql m ufs ''EXCLUDED'' ig = Inr (set_sql, ign)"
    and a: "arm = ''DO NOTHING'' \<or> arm = ''DO UPDATE SET '' @ set_sql @ '' ''
              @ (if ign \<noteq> [] then ''WHERE '' @ ign else [])"
    by (auto simp: get_upsert_on_conflict_def split: sum.splits prod.splits if_splits)
  from get_update_fields_sql_percent_free[OF g m u] have "percent_free set_sql" "percent_free ign"
    by (simp_all add: percent_free_literal)
  with a show ?thesis by (auto simp: percent_free_simps)
qed

lemma upsert_statement_parity:
  assumes s: "get_upsert_sql m objs uq ufs ret ig = Inr (sql, args)"
    and m: "percent_free_model m" and u: "percent_free_update_fields ufs"
    and r: "percent_free_returning ret"
  shows "count_placeholders sql = length (prep_sql_args args)"
proof -
  let ?fs = "upsert_all_fields m uq"
  from get_upsert_sql_Inr[OF s] obtain unique_db_cols on_conflict where
    uc: "map_err (field_column m) uq = Inr unique_db_cols"
    and oc: "get_upsert_on_conflict m ufs ig = Inr on_conflict"
    and sql: "sql = ('' INSERT INTO '' @ db_table m @ '' (''
              @ join '', '' (map (\<lambda>f. quote (column f)) ?fs) @ '')'')
            @ '' VALUES '' @ join '', '' (fst (get_values_for_rows objs ?fs))
            @ '' ON CONFLICT ('' @ (join '', '' (map quote unique_db_cols) @ '') '' @ on_conflict
            @ '' '' @ get_returning_sql ret m True)"
    and args: "args = snd (get_values_for_rows objs ?fs)"
    by blast
  have f: "percent_free (column f) \<and> percent_free (db_type f)" if "f \<in> set ?fs" for f
    using that percent_free_model_field[OF m, of f]
    by (simp add: upsert_all_fields_def model_fields_def)
  from m have t: "percent_free (db_table m)" by (simp add: percent_free_model_def)
  have "percent_free (join '', '' (map (\<lambda>f. quote (column f)) ?fs))"
    by (rule percent_free_join) (auto simp: percent_free_simps f)
  with t have pre: "percent_free ('' INSERT INTO '' @ db_table m @ '' (''
              @ join '', '' (map (\<lambda>f. quote (column f)) ?fs) @ '')'')"
    by (simp add: percent_free_simps)
  have "percent_free (join '', '' (map quote unique_db_cols))"
    by (rule percent_free_join)
       (auto simp: percent_free_simps dest: columns_percent_free[OF m uc])
  with get_upsert_on_conflict_percent_free[OF oc m u] get_returning_sql_percent_free[OF m r, of True]
  have post: "percent_free ('' ON CONFLICT ('' @ (join '', '' (map quote unique_db_cols) @ '') ''
            @ on_conflict @ '' '' @ get_returning_sql ret m True))"
    by (simp add: percent_free_simps)
  have v: "separable (join '', '' (fst (get_values_for_rows objs ?fs)))"
    "count_placeholders (join '', '' (fst (get_values_for_rows objs ?fs)))
         = length (snd (get_values_for_rows objs ?fs))"
    using upsert_values_count[of ?fs objs] f by simp_all
  have kw: "percent_free '' VALUES ''" by (simp add: percent_free_def)
  have "count_placeholders sql
      = count_placeholders ('' VALUES '' @ join '', '' (fst (get_values_for_rows objs ?fs))
            @ '' ON CONFLICT ('' @ (join '', '' (map quote unique_db_cols) @ '') '' @ on_conflict
            @ '' '' @ get_returning_sql ret m True))"
    unfolding sql by (rule count_percent_free_prefix[OF pre])
  also have "\<dots> = count_placeholders (join '', '' (fst (get_values_for_rows objs ?fs))
            @ '' ON CONFLICT ('' @ (join '', '' (map quote unique_db_cols) @ '') '' @ on_conflict
            @ '' '' @ get_returning_sql ret m True))"
    by (rule count_percent_free_prefix[OF kw])
  also have "\<dots> = length (snd (get_values_for_rows objs ?fs))"
    using v count_percent_free[OF post] by (simp add: separable_def)
  finally show ?thesis by (simp add: args prep_sql_args_def)
qed

lemma update_statement_parity:
  assumes s: "get_update_sql m pk objs ufs ret ig = Inr (Some (sql, params))"
    and m: "percent_free_model m" and u: "percent_free_update_fields ufs"
    and r: "percent_free_returning ret" and p: "percent_free_field pk"
  shows "count_placeholders sql = length params"
proof -
  from get_update_sql_Some[OF s] obtain row_values db_types value_cols set_sql ign where
    rv: "map_err (\<lambda>obj. map_err (value_of_field m obj) (value_fields pk ufs)) objs = Inr row_values"
    and dt: "map_err (field_db_type m) (value_fields pk ufs) = Inr db_types"
    and vc: "map_err (field_column m) (value_fields pk ufs) = Inr value_cols"
    and g: "get_update_fields_sql m ufs ''new_values'' ig = Inr (set_sql, ign)"
    and sql: "sql = (''UPDATE '' @ quote (db_table m) @ '' '' @ ''SET '' @ set_sql @ '' '')
            @ ''FROM (VALUES '' @ update_values_sql db_types row_values
            @ '') AS new_values ('' @ (join '', '' (map quote value_cols) @ '') ''
            @ ''WHERE '' @ quote (db_table m) @ ''.'' @ quote (column pk)
            @ '' = new_values.'' @ quote (column pk) @ '' ''
            @ (if ign \<noteq> [] then ''AND '' @ ign else [])
            @ '' '' @ get_returning_sql ret m False)"
    and params: "params = prep_sql_args (concat row_values)"
    by blast
  from m have t: "percent_free (db_table m)" by (simp add: percent_free_model_def)
  from p have pc: "percent_free (column pk)" by (simp add: percent_free_field_def)
  from get_update_fields_sql_percent_free[OF g m u] have gs: "percent_free set_sql" "percent_free ign"
    by (simp_all add: percent_free_literal)
  from t gs have pre: "percent_free (''UPDATE '' @ quote (db_table m) @ '' '' @ ''SET '' @ set_sql @ '' '')"
    by (simp add: percent_free_simps)
  have "percent_free (join '', '' (map quote value_cols))"
    by (rule percent_free_join)
       (auto simp: percent_free_simps dest: columns_percent_free[OF m vc])
  with t pc gs get_returning_sql_percent_free[OF m r, of False]
  have post: "percent_free ('') AS new_values ('' @ (join '', '' (map quote value_cols) @ '') ''
            @ ''WHERE '' @ quote (db_table m) @ ''.'' @ quote (column pk)
            @ '' = new_values.'' @ quote (column pk) @ '' ''
            @ (if ign \<noteq> [] then ''AND '' @ ign else [])
            @ '' '' @ get_returning_sql ret m False))"
    by (simp add: percent_free_simps)
  from dt have ld: "length db_types = length (value_fields pk ufs)" by (simp add: map_err_length)
  have lr: "length row \<le> length db_types" if "row \<in> set row_values" for row
    using update_rows_lengths[OF rv that] ld by simp
  have v: "separable (update_values_sql db_types row_values)"
    "count_placeholders (update_values_sql db_types row_values) = length (concat row_values)"
    using update_values_count[of db_types row_values] db_types_percent_free[OF m dt] lr by simp_all
  have kw: "percent_free ''FROM (VALUES ''" by (simp add: percent_free_def)
  have "count_placeholders sql
      = count_placeholders (''FROM (VALUES '' @ update_values_sql db_types row_values
            @ '') AS new_values ('' @ (join '', '' (map quote value_cols) @ '') ''
            @ ''WHERE '' @ quote (db_table m) @ ''.'' @ quote (column pk)
            @ '' = new_values.'' @ quote (column pk) @ '' ''
            @ (if ign \<noteq> [] then ''AND '' @ ign else [])
            @ '' '' @ get_returning_sql ret m False))"
    unfolding sql by (rule count_percent_free_prefix[OF pre])
  also have "\<dots> = count_placeholders (update_values_sql db_types row_values
            @ '') AS new_values ('' @ (join '', '' (map quote value_cols) @ '') ''
            @ ''WHERE '' @ quote (db_table m) @ ''.'' @ quote (column pk)
            @ '' = new_values.'' @ quote (column pk) @ '' ''
            @ (if ign \<noteq> [] then ''AND '' @ ign else [])
            @ '' '' @ get_returning_sql ret m False))"
    by (rule count_percent_free_prefix[OF kw])
  also have "\<dots> = length (concat row_values)"
    using v count_percent_free[OF post] by (simp add: separable_def)
  finally show ?thesis by (simp add: params prep_sql_args_def)
qed

text \<open>
  C7, as the code has it. When the table name, the column and type names of the model (and
  of the primary key), the expression texts of the update fields and the columns asked
  for in \<^verbatim>\<open>returning\<close> contain no percent sign, the text of every compiled statement of
  either compiler has exactly as many \<^verbatim>\<open>%s\<close> placeholders as the argument list handed to
  \<^verbatim>\<open>cursor.execute\<close> has elements.
\<close>

theorem placeholder_parity:
  "(percent_free_model m \<and> percent_free_update_fields ufs \<and> percent_free_returning ret
      \<and> get_upsert_sql m objs uq ufs ret ig = Inr (sql, args)
      \<longrightarrow> count_placeholders sql = length (prep_sql_args args))
   \<and> (percent_free_model m \<and> percent_free_update_fields ufs \<and> percent_free_returning ret
      \<and> percent_free_field pk
      \<and> get_update_sql m pk objs ufs ret ig = Inr (Some (sql', params))
      \<longrightarrow> count_placeholders sql' = length params)"
  using upsert_statement_parity update_statement_parity by blast

theorem placeholder_parity_witness:
  "percent_free_model account
   \<and> percent_free_update_fields [UpdateField ''count'' (Some ''EXCLUDED.count + 1'')]
   \<and> percent_free_returning (RBool True) \<and> percent_free_field id_field
   \<and> (\<exists>sql args.
         get_upsert_sql account two_accounts [''email'']
           [UpdateField ''count'' (Some ''EXCLUDED.count + 1'')] (RBool True) True = Inr (sql, args)
       \<and> count_placeholders sql = length (prep_sql_args args) \<and> length args = 8)
   \<and> (\<exists>sql params.
         get_update_sql account id_field two_accounts
           [UpdateField ''count'' (Some ''EXCLUDED.count + 1'')] (RBool True) True
           = Inr (Some (sql, params))
       \<and> count_placeholders sql = length params \<and> length params = 4)"
proof -
  have h: "percent_free_model account"
    "percent_free_update_fields [UpdateField ''count'' (Some ''EXCLUDED.count + 1'')]"
    "percent_free_returning (RBool True)" "percent_free_field id_field"
    by code_simp+
  have "case get_upsert_sql account two_accounts [''email'']
           [UpdateField ''count'' (Some ''EXCLUDED.count + 1'')] (RBool True) True
        of Inl e \<Rightarrow> False | Inr p \<Rightarrow> length (snd p) = 8"
    by code_simp
  then obtain sql args where
    1: "get_upsert_sql account two_accounts [''email'']
           [UpdateField ''count'' (Some ''EXCLUDED.count + 1'')] (RBool True) True = Inr (sql, args)"
      "length args = 8"
    by (auto split: sum.splits)
  have "case get_update_sql account id_field two_accounts
           [UpdateField ''count'' (Some ''EXCLUDED.count + 1'')] (RBool True) True
        of Inr (Some p) \<Rightarrow> length (snd p) = 4 | _ \<Rightarrow> False"
    by code_simp
  then obtain sql' params where
    2: "get_update_sql account id_field two_accounts
           [UpdateField ''count'' (Some ''EXCLUDED.count + 1'')] (RBool True) True
           = Inr (Some (sql', params))"
      "length params = 4"
    by (auto split: sum.splits option.splits)
  from placeholder_parity[where m = account and objs = two_accounts and uq = "[''email'']"
      and ufs = "[UpdateField ''count'' (Some ''EXCLUDED.count + 1'')]" and ret = "RBool True"
      and ig = True and sql = sql and args = args and pk = id_field and sql' = sql'
      and params = params] h 1 2
  show ?thesis by blast
qed

text \<open>
  The claim as stated fails: the text of an update expression is written into the SET
  clause as it is, so an expression whose text contains \<^verbatim>\<open>%s\<close> adds a placeholder that
  has no argument.
\<close>

theorem percent_in_expression_breaks_parity:
  "\<not> isl (get_upsert_sql account two_accounts [''email'']
            [UpdateField ''count'' (Some quoted_percent_s)] (RBool False) False)
   \<and> count_placeholders (fst (projr (get_upsert_sql account two_accounts [''email'']
            [UpdateField ''count'' (Some quoted_percent_s)] (RBool False) False))) = 9
   \<and> length (prep_sql_args (snd (projr (get_upsert_sql account two_accounts [''email'']
            [UpdateField ''count'' (Some quoted_percent_s)] (RBool False) False)))) = 8"
  by code_simp

end
